theory Spec2Isabelle
  imports Main "HOL-Library.Word" "HOL-Library.AList" "HOL-Library.Sublist"
    "HOL-Library.Code_Target_Nat"
begin

section \<open>Python values used by epub-query\<close>

text \<open>
  A Python \<open>str\<close> is a sequence of Unicode code points, a \<open>bytes\<close> object a sequence of
  octets. ASCII literals of the source are written \<open>str ''...''\<close>.
\<close>

type_synonym byte = "8 word"
type_synonym pystr = "nat list"

definition str :: "string \<Rightarrow> pystr" where
  "str s = map of_char s"

definition NL :: nat where
  "NL = 10"

text \<open>The exceptions that the modelled code can raise.\<close>

datatype error =
  FileNotFoundError | EpubException | AttributeError | UnicodeDecodeError | PatternError

subsection \<open>\<open>str.isspace\<close>, \<open>str.strip()\<close>, \<open>str.split()\<close>\<close>

text \<open>The code points that Python treats as whitespace in \<open>strip()\<close> and \<open>split()\<close>.\<close>

definition is_space :: "nat \<Rightarrow> bool" where
  "is_space c \<longleftrightarrow>
     (9 \<le> c \<and> c \<le> 13) \<or> (28 \<le> c \<and> c \<le> 32) \<or> c = 133 \<or> c = 160 \<or> c = 5760 \<or>
     (8192 \<le> c \<and> c \<le> 8202) \<or> c = 8232 \<or> c = 8233 \<or> c = 8239 \<or> c = 8287 \<or> c = 12288"

definition py_strip :: "pystr \<Rightarrow> pystr" where
  "py_strip s = rev (dropWhile is_space (rev (dropWhile is_space s)))"

text \<open>
  \<open>s.split()\<close> without a separator: the maximal runs of non-whitespace characters.
  \<open>cur\<close> is the token being collected.
\<close>

fun split_ws :: "pystr \<Rightarrow> pystr \<Rightarrow> pystr list" where
  "split_ws cur [] = (if cur = [] then [] else [cur])"
| "split_ws cur (c # cs) =
     (if is_space c then (if cur = [] then split_ws [] cs else cur # split_ws [] cs)
      else split_ws (cur @ [c]) cs)"

definition py_split_ws :: "pystr \<Rightarrow> pystr list" where
  "py_split_ws s = split_ws [] s"

subsection \<open>\<open>str.split(sep)\<close>, \<open>sep.join(xs)\<close>, slicing\<close>

text \<open>
  \<open>s.split(sep)\<close> for a non-empty separator: the text is cut at every occurrence of
  \<open>sep\<close>, found left to right without overlap. (The source only passes the constant
  \<open>"\n"\<close>; Python raises \<open>ValueError\<close> on an empty separator.)
\<close>

fun split_sep :: "'a list \<Rightarrow> 'a list \<Rightarrow> 'a list \<Rightarrow> 'a list list" where
  "split_sep sep cur [] = [cur]"
| "split_sep sep cur (c # cs) =
     (if sep \<noteq> [] \<and> take (length sep) (c # cs) = sep
      then cur # split_sep sep [] (drop (length sep) (c # cs))
      else split_sep sep (cur @ [c]) cs)"

definition py_split :: "'a list \<Rightarrow> 'a list \<Rightarrow> 'a list list" where
  "py_split sep s = split_sep sep [] s"

fun py_join :: "'a list \<Rightarrow> 'a list list \<Rightarrow> 'a list" where
  "py_join sep [] = []"
| "py_join sep [x] = x"
| "py_join sep (x # y # ys) = x @ sep @ py_join sep (y # ys)"

text \<open>
  \<open>xs[start:stop]\<close>: a negative index counts from the end, and both indices are clamped
  to the list.
\<close>

definition slice_index :: "int \<Rightarrow> int \<Rightarrow> nat" where
  "slice_index n i = nat (if i < 0 then max 0 (n + i) else min n i)"

definition py_slice :: "'a list \<Rightarrow> int \<Rightarrow> int \<Rightarrow> 'a list" where
  "py_slice xs start stop =
     (let n = int (length xs); a = slice_index n start; b = slice_index n stop
      in take (b - a) (drop a xs))"

subsection \<open>\<open>bytes.decode("utf-8")\<close>\<close>

text \<open>
  Strict UTF-8 decoding, on the numeric values of the octets: the length of a sequence
  is fixed by its first octet; over-long forms, surrogates and values past U+10FFFF are
  rejected, as is a truncated sequence.
\<close>

definition is_cont :: "nat \<Rightarrow> bool" where
  "is_cont b \<longleftrightarrow> 128 \<le> b \<and> b < 192"

definition utf8_trail :: "nat \<Rightarrow> nat option" where
  "utf8_trail b0 =
     (if b0 < 128 then Some 0
      else if 194 \<le> b0 \<and> b0 < 224 then Some 1
      else if 224 \<le> b0 \<and> b0 < 240 then Some 2
      else if 240 \<le> b0 \<and> b0 < 245 then Some 3
      else None)"

definition utf8_second_ok :: "nat \<Rightarrow> nat \<Rightarrow> bool" where
  "utf8_second_ok b0 b1 =
     (if b0 = 224 then 160 \<le> b1 \<and> b1 < 192
      else if b0 = 237 then 128 \<le> b1 \<and> b1 < 160
      else if b0 = 240 then 144 \<le> b1 \<and> b1 < 192
      else if b0 = 244 then 128 \<le> b1 \<and> b1 < 144
      else is_cont b1)"

definition utf8_value :: "nat \<Rightarrow> nat list \<Rightarrow> nat" where
  "utf8_value b0 trail =
     foldl (\<lambda>v b. v * 64 + (b - 128))
       (if b0 < 128 then b0 else if b0 < 224 then b0 - 192 else if b0 < 240 then b0 - 224
        else b0 - 240) trail"

fun utf8_decode :: "nat list \<Rightarrow> pystr option" where
  "utf8_decode [] = Some []"
| "utf8_decode (b0 # bs) =
     (case utf8_trail b0 of
        None \<Rightarrow> None
      | Some k \<Rightarrow>
          (let trail = take k bs in
           if length trail = k \<and> list_all is_cont trail \<and>
              (case trail of [] \<Rightarrow> True | b1 # _ \<Rightarrow> utf8_second_ok b0 b1)
           then map_option ((#) (utf8_value b0 trail)) (utf8_decode (drop k bs))
           else None))"

text \<open>
  What a call of \<open>get_content()\<close> can hand out: a \<open>bytes\<close> object or a \<open>str\<close>. Only
  \<open>bytes\<close> has a method \<open>decode\<close>; on a \<open>str\<close> the call \<open>.decode("utf-8")\<close> raises
  \<open>AttributeError\<close>.
\<close>

datatype py_content = Bytes "byte list" | Str pystr

fun decode :: "py_content \<Rightarrow> error + pystr" where
  "decode (Bytes bs) =
     (case utf8_decode (map unat bs) of None \<Rightarrow> Inl UnicodeDecodeError | Some s \<Rightarrow> Inr s)"
| "decode (Str s) = Inl AttributeError"

section \<open>The libraries behind the parser\<close>

subsection \<open>ebooklib: items and books\<close>

text \<open>
  An \<open>EpubBook\<close> holds its items in the order in which they were added (the order of the
  package's manifest) and, separately, the spine: the identifiers of the items in
  reading order. \<open>get_items_of_type\<close> walks the item list. An item has its name, which
  is its path inside the package, and its raw content, the bytes read from the package.
  What \<open>get_content()\<close> hands out for a document is not the raw content: the library
  parses the raw content again and serialises the result, so this method is part of the
  environment below.
\<close>

datatype item_type =
  ITEM_UNKNOWN | ITEM_IMAGE | ITEM_STYLE | ITEM_SCRIPT | ITEM_NAVIGATION | ITEM_VECTOR |
  ITEM_FONT | ITEM_VIDEO | ITEM_AUDIO | ITEM_DOCUMENT | ITEM_COVER | ITEM_SMIL

record epub_item =
  item_id :: pystr
  item_name :: pystr
  item_type :: item_type
  item_content :: "byte list"

record epub_book =
  items :: "epub_item list"
  spine :: "pystr list"

definition get_name :: "epub_item \<Rightarrow> pystr" where
  "get_name item = item_name item"

definition get_items_of_type :: "epub_book \<Rightarrow> item_type \<Rightarrow> epub_item list" where
  "get_items_of_type bk t = filter (\<lambda>item. item_type item = t) (items bk)"

subsection \<open>BeautifulSoup: the parsed tree\<close>

text \<open>
  The parse tree: text strings, strings of a kind that \<open>get_text\<close> leaves out
  (comments, declarations, the text of scripts and style sheets), and tags with their
  children. The soup object itself is the root tag.
\<close>

datatype node =
  NavigableString pystr
| Comment pystr
| Tag pystr "node list"

text \<open>\<open>tag.find(name)\<close>: the first descendant tag of that name, in document order.\<close>

fun find_node :: "pystr \<Rightarrow> node \<Rightarrow> node option"
  and find_nodes :: "pystr \<Rightarrow> node list \<Rightarrow> node option" where
  "find_node name (NavigableString s) = None"
| "find_node name (Comment s) = None"
| "find_node name (Tag t children) =
     (if t = name then Some (Tag t children) else find_nodes name children)"
| "find_nodes name [] = None"
| "find_nodes name (n # ns) =
     (case find_node name n of Some r \<Rightarrow> Some r | None \<Rightarrow> find_nodes name ns)"

fun children_of :: "node \<Rightarrow> node list" where
  "children_of (Tag t children) = children"
| "children_of _ = []"

definition soup_find :: "node \<Rightarrow> pystr \<Rightarrow> node option" where
  "soup_find soup name = find_nodes name (children_of soup)"

text \<open>The text strings below a node, in document order.\<close>

fun strings_of :: "node \<Rightarrow> pystr list" where
  "strings_of (NavigableString s) = [s]"
| "strings_of (Comment s) = []"
| "strings_of (Tag t children) = concat (map strings_of children)"

text \<open>
  \<open>tag.get_text(separator, strip)\<close>: with \<open>strip\<close>, every string is stripped and the
  strings that become empty are dropped; the rest is joined with the separator.
\<close>

definition all_strings :: "bool \<Rightarrow> node \<Rightarrow> pystr list" where
  "all_strings strip n =
     (if strip then filter (\<lambda>s. s \<noteq> []) (map py_strip (strings_of n)) else strings_of n)"

definition get_text :: "pystr \<Rightarrow> bool \<Rightarrow> node \<Rightarrow> pystr" where
  "get_text separator strip n = py_join separator (all_strings strip n)"

subsection \<open>What the environment provides\<close>

text \<open>
  One match of a compiled pattern on a line: the text of the whole match and the texts
  of its capturing groups (the empty string for a group that took no part). A compiled
  pattern is the function from a line to its matches, left to right without overlap.
\<close>

record re_match =
  whole :: pystr
  grps :: "pystr list"

type_synonym compiled = "pystr \<Rightarrow> re_match list"

text \<open>
  The file system and the library functions whose code is not part of the program:
  \<open>Path.exists\<close>, \<open>epub.read_epub\<close>, the method \<open>get_content\<close> of an item (for a
  document: the UTF-8 serialisation of the document parsed again, or the empty \<open>str\<close>
  when it cannot be parsed), the markup parser behind \<open>BeautifulSoup(content, "lxml")\<close>,
  and \<open>re.compile\<close> (the flag says whether \<open>re.IGNORECASE\<close> is set).
\<close>

record env =
  path_exists :: "pystr \<Rightarrow> bool"
  read_epub :: "pystr \<Rightarrow> error + epub_book"
  get_content :: "epub_item \<Rightarrow> py_content"
  BeautifulSoup :: "pystr \<Rightarrow> node"
  re_compile :: "pystr \<Rightarrow> bool \<Rightarrow> error + compiled"

section \<open>parser.py\<close>

record Chapter =
  title :: pystr
  content :: pystr
  file_name :: pystr

text \<open>
  \<open>EpubParser\<close>: the path and the lazily loaded book. \<open>extractions\<close> is a ghost
  counter, not a field of the class: the number of calls of \<open>get_chapters\<close> so far.
\<close>

record EpubParser =
  path :: pystr
  book_cache :: "epub_book option"
  extractions :: nat

definition EpubParser_init :: "env \<Rightarrow> pystr \<Rightarrow> error + EpubParser" where
  "EpubParser_init e epub_path =
     (if \<not> path_exists e epub_path then Inl FileNotFoundError
      else Inr \<lparr>path = epub_path, book_cache = None, extractions = 0\<rparr>)"

definition book :: "env \<Rightarrow> EpubParser \<Rightarrow> (error + epub_book) \<times> EpubParser" where
  "book e p =
     (case book_cache p of
        Some bk \<Rightarrow> (Inr bk, p)
      | None \<Rightarrow>
          (case read_epub e (path p) of
             Inl err \<Rightarrow> (Inl err, p)
           | Inr bk \<Rightarrow> (Inr bk, p\<lparr>book_cache := Some bk\<rparr>)))"

text \<open>
  The search for a title: the first of the tags that the document has gives the
  title, and the loop stops there; the title stays empty when the document has none.
\<close>

fun find_title :: "node \<Rightarrow> pystr list \<Rightarrow> pystr" where
  "find_title soup [] = []"
| "find_title soup (tag # tags) =
     (case soup_find soup tag of
        Some heading \<Rightarrow> get_text [] True heading
      | None \<Rightarrow> find_title soup tags)"

definition title_tags :: "pystr list" where
  "title_tags = [str ''h1'', str ''h2'', str ''h3'', str ''title'']"

text \<open>
  The body of the loop of \<open>get_chapters\<close>, for one item: \<open>make_chapter\<close> is what
  follows the decoding.
\<close>

definition make_chapter :: "env \<Rightarrow> epub_item \<Rightarrow> pystr \<Rightarrow> Chapter" where
  "make_chapter e item text_in =
     (let soup = BeautifulSoup e text_in;
          text = get_text [NL] True soup;
          t = find_title soup title_tags;
          t' = (if t = [] then get_name item else t)
      in \<lparr>title = t', content = text, file_name = get_name item\<rparr>)"

definition extract_chapter :: "env \<Rightarrow> epub_item \<Rightarrow> error + Chapter" where
  "extract_chapter e item =
     (case decode (get_content e item) of
        Inl err \<Rightarrow> Inl err
      | Inr text_in \<Rightarrow> Inr (make_chapter e item text_in))"

fun chapters_loop :: "env \<Rightarrow> epub_item list \<Rightarrow> Chapter list \<Rightarrow> error + Chapter list" where
  "chapters_loop e [] chapters = Inr chapters"
| "chapters_loop e (item # rest) chapters =
     (case extract_chapter e item of
        Inl err \<Rightarrow> Inl err
      | Inr ch \<Rightarrow> chapters_loop e rest (chapters @ [ch]))"

definition count_call :: "EpubParser \<Rightarrow> EpubParser" where
  "count_call p = p\<lparr>extractions := Suc (extractions p)\<rparr>"

definition get_chapters :: "env \<Rightarrow> EpubParser \<Rightarrow> (error + Chapter list) \<times> EpubParser" where
  "get_chapters e p =
     (case book e p of
        (Inl err, p1) \<Rightarrow> (Inl err, count_call p1)
      | (Inr bk, p1) \<Rightarrow>
          (chapters_loop e (get_items_of_type bk ITEM_DOCUMENT) [], count_call p1))"

definition get_full_text :: "env \<Rightarrow> EpubParser \<Rightarrow> (error + pystr) \<times> EpubParser" where
  "get_full_text e p =
     (case get_chapters e p of
        (Inl err, p1) \<Rightarrow> (Inl err, p1)
      | (Inr chapters, p1) \<Rightarrow> (Inr (py_join [NL, NL] (map content chapters)), p1))"

section \<open>query.py\<close>

subsection \<open>The \<open>re\<close> functions that the search calls\<close>

text \<open>
  \<open>re.escape\<close> puts a backslash before each of the characters
  \<open>( ) [ ] { } ? * + - | ^ $ \ . & ~ #\<close> and before the ASCII whitespace characters.
\<close>

definition re_special :: "nat \<Rightarrow> bool" where
  "re_special c \<longleftrightarrow>
     c \<in> set [40, 41, 91, 93, 123, 125, 63, 42, 43, 45, 124, 94, 36, 92, 46, 38, 126, 35,
              32, 9, 10, 13, 11, 12]"

definition re_escape :: "pystr \<Rightarrow> pystr" where
  "re_escape pattern = concat (map (\<lambda>c. if re_special c then [92, c] else [c]) pattern)"

text \<open>
  A pattern in which every special character stands behind a backslash, and no
  backslash stands anywhere else, is plain text in the pattern language; \<open>literal_of\<close>
  gives the text that such a pattern stands for, and \<open>None\<close> for any other pattern.
\<close>

fun literal_of :: "pystr \<Rightarrow> pystr option" where
  "literal_of [] = Some []"
| "literal_of [c] = (if re_special c then None else Some [c])"
| "literal_of (c # d # ds) =
     (if c = 92 then (if re_special d then map_option ((#) d) (literal_of ds) else None)
      else if re_special c then None
      else map_option ((#) c) (literal_of (d # ds)))"

text \<open>
  What \<open>findall\<close> returns for one match: a string (the whole match when the pattern has
  no group, the group when it has one) or a tuple of the texts of its two or more
  groups, given here as its first component and the others.
\<close>

datatype findall_item = MatchStr pystr | MatchTuple pystr "pystr list"

definition findall_item_of :: "re_match \<Rightarrow> findall_item" where
  "findall_item_of m =
     (case grps m of
        [] \<Rightarrow> MatchStr (whole m)
      | [g] \<Rightarrow> MatchStr g
      | g # gs \<Rightarrow> MatchTuple g gs)"

definition findall :: "compiled \<Rightarrow> pystr \<Rightarrow> findall_item list" where
  "findall c line = map findall_item_of (c line)"

subsection \<open>\<open>EpubQuery\<close>\<close>

record SearchResult =
  chapter_title :: pystr
  result_file_name :: pystr
  match :: pystr
  result_context :: pystr
  line_number :: int

record EpubQuery =
  parser :: EpubParser
  chapters_cache :: "Chapter list option"

definition EpubQuery_init :: "env \<Rightarrow> pystr \<Rightarrow> error + EpubQuery" where
  "EpubQuery_init e epub_path =
     (case EpubParser_init e epub_path of
        Inl err \<Rightarrow> Inl err
      | Inr p \<Rightarrow> Inr \<lparr>parser = p, chapters_cache = None\<rparr>)"

text \<open>The property \<open>chapters\<close>: loads the chapters on the first use.\<close>

definition chapters :: "env \<Rightarrow> EpubQuery \<Rightarrow> (error + Chapter list) \<times> EpubQuery" where
  "chapters e q =
     (case chapters_cache q of
        Some chs \<Rightarrow> (Inr chs, q)
      | None \<Rightarrow>
          (case get_chapters e (parser q) of
             (Inl err, p1) \<Rightarrow> (Inl err, q\<lparr>parser := p1\<rparr>)
           | (Inr chs, p1) \<Rightarrow> (Inr chs, q\<lparr>parser := p1, chapters_cache := Some chs\<rparr>)))"

text \<open>\<open>match if isinstance(match, str) else match[0]\<close>\<close>

fun match_text :: "findall_item \<Rightarrow> pystr" where
  "match_text (MatchStr s) = s"
| "match_text (MatchTuple g gs) = g"

definition build_context :: "pystr list \<Rightarrow> nat \<Rightarrow> int \<Rightarrow> pystr" where
  "build_context lines i context_lines =
     (let start = max 0 (int i - context_lines);
          stop = min (int (length lines)) (int i + context_lines + 1)
      in py_join [NL] (py_slice lines start stop))"

text \<open>The body of the loop over the lines: the results that line \<open>i\<close> adds.\<close>

definition line_results ::
  "compiled \<Rightarrow> int \<Rightarrow> Chapter \<Rightarrow> pystr list \<Rightarrow> nat \<times> pystr \<Rightarrow> SearchResult list" where
  "line_results compiled context_lines chapter lines il =
     (let matches = findall compiled (snd il) in
      if matches \<noteq> [] then
        (let ctx = build_context lines (fst il) context_lines in
         map (\<lambda>m. \<lparr>chapter_title = title chapter, result_file_name = file_name chapter,
                    match = match_text m, result_context = ctx,
                    line_number = int (fst il) + 1\<rparr>) matches)
      else [])"

text \<open>\<open>chapter.content.split("\n")\<close>\<close>

definition lines_of :: "Chapter \<Rightarrow> pystr list" where
  "lines_of chapter = py_split [NL] (content chapter)"

text \<open>
  The loop over the lines of one chapter and the loop over the chapters; \<open>results\<close> is
  the list that the loops append to.
\<close>

definition chapter_results ::
  "compiled \<Rightarrow> int \<Rightarrow> SearchResult list \<Rightarrow> Chapter \<Rightarrow> SearchResult list" where
  "chapter_results compiled context_lines results chapter =
     (let lines = lines_of chapter in
      foldl (\<lambda>rs il. rs @ line_results compiled context_lines chapter lines il) results
        (enumerate 0 lines))"

definition search ::
  "env \<Rightarrow> pystr \<Rightarrow> bool \<Rightarrow> int \<Rightarrow> bool \<Rightarrow> EpubQuery \<Rightarrow> (error + SearchResult list) \<times> EpubQuery"
  where
  "search e pattern case_sensitive context_lines regex q =
     (let ignorecase = \<not> case_sensitive;
          pattern' = (if \<not> regex then re_escape pattern else pattern)
      in case re_compile e pattern' ignorecase of
           Inl err \<Rightarrow> (Inl err, q)
         | Inr compiled \<Rightarrow>
             (case chapters e q of
                (Inl err, q1) \<Rightarrow> (Inl err, q1)
              | (Inr chs, q1) \<Rightarrow>
                  (Inr (foldl (chapter_results compiled context_lines) [] chs), q1)))"

text \<open>
  \<open>word_count\<close>: the dictionary \<open>by_chapter\<close> keeps its keys in the order of their
  first insertion, and a second assignment to a key replaces its value.
\<close>

record WordCountReport =
  total :: int
  by_chapter :: "(pystr \<times> int) list"

definition count_step :: "WordCountReport \<Rightarrow> Chapter \<Rightarrow> WordCountReport" where
  "count_step r chapter =
     (let words = int (length (py_split_ws (content chapter)))
      in \<lparr>total = total r + words,
          by_chapter = AList.update (title chapter) words (by_chapter r)\<rparr>)"

definition word_count_of :: "Chapter list \<Rightarrow> WordCountReport" where
  "word_count_of chs = foldl count_step \<lparr>total = 0, by_chapter = []\<rparr> chs"

definition word_count :: "env \<Rightarrow> EpubQuery \<Rightarrow> (error + WordCountReport) \<times> EpubQuery" where
  "word_count e q =
     (case chapters e q of
        (Inl err, q1) \<Rightarrow> (Inl err, q1)
      | (Inr chs, q1) \<Rightarrow> (Inr (word_count_of chs), q1))"

section \<open>A small environment for running the code\<close>

subsection \<open>A pattern engine\<close>

text \<open>
  A pattern engine for a fragment of the pattern language: literal text with groups.
  A backslash and a special character stand for that character, a character that is
  not special for itself, and a pair of parentheses (not nested) marks a capturing
  group, recorded by its offset and length in the literal text. Everything else is
  refused: a special character on its own, a backslash at the end or before a
  character that is not special, a parenthesis without its partner. With the flag,
  ASCII letters match in either case.
\<close>

fun parse_pattern ::
  "pystr \<Rightarrow> nat option \<Rightarrow> pystr \<Rightarrow> (nat \<times> nat) list \<Rightarrow> (pystr \<times> (nat \<times> nat) list) option"
  where
  "parse_pattern [] opened lit groups = (if opened = None then Some (lit, groups) else None)"
| "parse_pattern (c # cs) opened lit groups =
     (if c = 92 then
        (case cs of
           [] \<Rightarrow> None
         | d # ds \<Rightarrow>
             if re_special d then parse_pattern ds opened (lit @ [d]) groups else None)
      else if c = 40 then
        (case opened of
           None \<Rightarrow> parse_pattern cs (Some (length lit)) lit groups
         | Some _ \<Rightarrow> None)
      else if c = 41 then
        (case opened of
           None \<Rightarrow> None
         | Some start \<Rightarrow>
             parse_pattern cs None lit (groups @ [(start, length lit - start)]))
      else if re_special c then None
      else parse_pattern cs opened (lit @ [c]) groups)"

definition ascii_lower :: "nat \<Rightarrow> nat" where
  "ascii_lower c = (if 65 \<le> c \<and> c \<le> 90 then c + 32 else c)"

definition same_text :: "bool \<Rightarrow> pystr \<Rightarrow> pystr \<Rightarrow> bool" where
  "same_text ignorecase a b =
     (if ignorecase then map ascii_lower a = map ascii_lower b else a = b)"

definition make_match :: "(nat \<times> nat) list \<Rightarrow> pystr \<Rightarrow> re_match" where
  "make_match groups text =
     \<lparr>whole = text, grps = map (\<lambda>(start, n). take n (drop start text)) groups\<rparr>"

fun literal_scan :: "bool \<Rightarrow> pystr \<Rightarrow> (nat \<times> nat) list \<Rightarrow> pystr \<Rightarrow> re_match list" where
  "literal_scan ignorecase lit groups [] = (if lit = [] then [make_match groups []] else [])"
| "literal_scan ignorecase lit groups (c # cs) =
     (if lit = [] then make_match groups [] # literal_scan ignorecase lit groups cs
      else if same_text ignorecase (take (length lit) (c # cs)) lit
      then make_match groups (take (length lit) (c # cs)) #
           literal_scan ignorecase lit groups (drop (length lit) (c # cs))
      else literal_scan ignorecase lit groups cs)"

definition literal_compile :: "pystr \<Rightarrow> bool \<Rightarrow> error + compiled" where
  "literal_compile pattern ignorecase =
     (case parse_pattern pattern None [] [] of
        None \<Rightarrow> Inl PatternError
      | Some (lit, groups) \<Rightarrow> Inr (literal_scan ignorecase lit groups))"

subsection \<open>A markup parser for a few documents\<close>

text \<open>A document without markup parses to one paragraph holding its text.\<close>

definition plain_text :: "pystr \<Rightarrow> node" where
  "plain_text s =
     Tag (str ''[document]'') [Tag (str ''html'') [Tag (str ''body'')
       [Tag (str ''p'') [NavigableString s]]]]"

text \<open>
  Three documents with markup and their trees: one with a title element, a
  second-level and a first-level heading; one whose first-level heading holds white
  space only; and a page of notes, with the heading \<open>Notes\<close> and one paragraph.
\<close>

definition heading_markup :: string where
  "heading_markup =
     ''<html><head><title>Book</title></head><body><h2> Second </h2>'' @
     ''<h1> Chapter <b>One </b></h1><p>Text</p></body></html>''"

definition heading_tree :: node where
  "heading_tree =
     Tag (str ''[document]'') [Tag (str ''html'')
       [Tag (str ''head'') [Tag (str ''title'') [NavigableString (str ''Book'')]],
        Tag (str ''body'')
          [Tag (str ''h2'') [NavigableString (str '' Second '')],
           Tag (str ''h1'') [NavigableString (str '' Chapter ''),
                            Tag (str ''b'') [NavigableString (str ''One '')]],
           Tag (str ''p'') [NavigableString (str ''Text'')]]]]"

definition empty_h1_markup :: string where
  "empty_h1_markup = ''<html><body><h1> </h1><h2>Second</h2></body></html>''"

definition empty_h1_tree :: node where
  "empty_h1_tree =
     Tag (str ''[document]'') [Tag (str ''html'')
       [Tag (str ''body'')
          [Tag (str ''h1'') [NavigableString (str '' '')],
           Tag (str ''h2'') [NavigableString (str ''Second'')]]]]"

definition notes_page :: "string \<Rightarrow> string" where
  "notes_page text =
     ''<html><body><h1>Notes</h1><p>'' @ text @ ''</p></body></html>''"

definition notes_page_tree :: "string \<Rightarrow> node" where
  "notes_page_tree text =
     Tag (str ''[document]'') [Tag (str ''html'')
       [Tag (str ''body'')
          [Tag (str ''h1'') [NavigableString (str ''Notes'')],
           Tag (str ''p'') [NavigableString (str text)]]]]"

text \<open>
  The parser of the sample environment knows these documents; any other text it takes
  for a document without markup.
\<close>

definition sample_parse :: "pystr \<Rightarrow> node" where
  "sample_parse text_in =
     (if text_in = str heading_markup then heading_tree
      else if text_in = str empty_h1_markup then empty_h1_tree
      else if text_in = str (notes_page ''one'') then notes_page_tree ''one''
      else if text_in = str (notes_page ''two three'') then notes_page_tree ''two three''
      else plain_text text_in)"

subsection \<open>Books and handles\<close>

text \<open>
  The stand-in for \<open>get_content\<close>: the empty document cannot be parsed and gives the
  empty \<open>str\<close>; a document that is valid UTF-8 is handed out as it is; of any other the
  octets outside ASCII are dropped. What it hands out as \<open>bytes\<close> is always valid UTF-8.
\<close>

definition sample_get_content :: "epub_item \<Rightarrow> py_content" where
  "sample_get_content item =
     (let raw = item_content item in
      if raw = [] then Str []
      else if utf8_decode (map unat raw) \<noteq> None then Bytes raw
      else Bytes (filter (\<lambda>b. unat b < 128) raw))"

definition sample_env :: "epub_book \<Rightarrow> env" where
  "sample_env bk =
     \<lparr>path_exists = (\<lambda>_. True), read_epub = (\<lambda>_. Inr bk),
      get_content = sample_get_content, BeautifulSoup = sample_parse,
      re_compile = literal_compile\<rparr>"

definition utf8 :: "string \<Rightarrow> byte list" where
  "utf8 s = map of_char s"

definition doc_item :: "string \<Rightarrow> string \<Rightarrow> string \<Rightarrow> epub_item" where
  "doc_item i name text =
     \<lparr>item_id = str i, item_name = str name, item_type = ITEM_DOCUMENT,
      item_content = utf8 text\<rparr>"

definition fresh_query :: EpubQuery where
  "fresh_query =
     \<lparr>parser = \<lparr>path = str ''book.epub'', book_cache = None, extractions = 0\<rparr>,
      chapters_cache = None\<rparr>"

text \<open>
  Three books: one with the chapters \<open>"Alpha line one\nAlpha line two"\<close> and
  \<open>"Beta line one"\<close>, one whose second document is not valid UTF-8, and one whose
  second document is empty.
\<close>

definition two_chapter_book :: epub_book where
  "two_chapter_book =
     \<lparr>items = [doc_item ''c1'' ''ch1.xhtml'' ''Alpha line one\<newline>Alpha line two'',
               doc_item ''c2'' ''ch2.xhtml'' ''Beta line one''],
      spine = [str ''c1'', str ''c2'']\<rparr>"

definition corrupt_book :: epub_book where
  "corrupt_book =
     \<lparr>items = [doc_item ''c1'' ''ch1.xhtml'' ''Alpha'',
               (doc_item ''c2'' ''ch2.xhtml'' ''Beta'')\<lparr>item_content := [0x42, 0xFF, 0x61]\<rparr>],
      spine = [str ''c1'', str ''c2'']\<rparr>"

definition empty_document_book :: epub_book where
  "empty_document_book =
     \<lparr>items = [doc_item ''c1'' ''ch1.xhtml'' ''Alpha'', doc_item ''c2'' ''ch2.xhtml'' []],
      spine = [str ''c1'', str ''c2'']\<rparr>"

text \<open>
  A book whose only document has no heading, at the internal path
  \<open>"text/ch05.xhtml"\<close>.
\<close>

definition heading_less_book :: epub_book where
  "heading_less_book =
     \<lparr>items = [doc_item ''c5'' ''text/ch05.xhtml'' ''Some text''], spine = [str ''c5'']\<rparr>"

text \<open>
  The reading order as the specification describes it: the spine, each identifier
  resolved to the internal path of the item of the manifest that bears it.
\<close>

definition spec_reading_order :: "epub_book \<Rightarrow> pystr list" where
  "spec_reading_order bk =
     List.map_filter
       (\<lambda>idref. map_option item_name (List.find (\<lambda>item. item_id item = idref) (items bk)))
       (spine bk)"

text \<open>A book whose spine declares the second item of the manifest first.\<close>

definition reordered_book :: epub_book where
  "reordered_book =
     \<lparr>items = [doc_item ''c1'' ''ch1.xhtml'' ''Alpha'', doc_item ''c2'' ''ch2.xhtml'' ''Beta''],
      spine = [str ''c2'', str ''c1'']\<rparr>"

text \<open>
  The context window as the specification describes it: the lines from
  \<open>max(0, i - context_lines)\<close> to \<open>min(lastLine, i + context_lines)\<close>, both included,
  joined by a newline.
\<close>

definition spec_window :: "pystr list \<Rightarrow> nat \<Rightarrow> int \<Rightarrow> pystr" where
  "spec_window lines i context_lines =
     (let lastLine = int (length lines) - 1
      in py_join [NL]
           (map (\<lambda>j. lines ! nat j)
              [max 0 (int i - context_lines) .. min lastLine (int i + context_lines)]))"

text \<open>A search in a book on a fresh handle, and a result of it.\<close>

definition sample_search ::
  "epub_book \<Rightarrow> string \<Rightarrow> bool \<Rightarrow> int \<Rightarrow> bool \<Rightarrow> error + SearchResult list" where
  "sample_search bk pattern case_sensitive context_lines regex =
     fst (search (sample_env bk) (str pattern) case_sensitive context_lines regex
            fresh_query)"

definition sample_result :: "string \<Rightarrow> string \<Rightarrow> string \<Rightarrow> int \<Rightarrow> SearchResult" where
  "sample_result name m ctx n =
     \<lparr>chapter_title = str name, result_file_name = str name, match = str m,
      result_context = str ctx, line_number = n\<rparr>"

text \<open>A book with the lines \<open>"The cat sat."\<close> and \<open>"the end of THE day"\<close>.\<close>

definition cat_book :: epub_book where
  "cat_book =
     \<lparr>items = [doc_item ''c1'' ''cat.xhtml'' ''The cat sat.\<newline>the end of THE day''],
      spine = [str ''c1'']\<rparr>"

text \<open>The handle of a book after its chapters have been loaded.\<close>

definition loaded_query :: "epub_book \<Rightarrow> EpubQuery" where
  "loaded_query bk = snd (chapters (sample_env bk) fresh_query)"

text \<open>A book whose only document holds two paragraphs of text with an empty line between.\<close>

definition blank_line_book :: epub_book where
  "blank_line_book =
     \<lparr>items = [doc_item ''c1'' ''ch1.xhtml'' ''First part\<newline>\<newline>Second part''],
      spine = [str ''c1'']\<rparr>"

text \<open>
  A book of two pages that both carry the heading \<open>Notes\<close>, and a book whose only
  chapter has the content \<open>"one two three"\<close>.
\<close>

definition same_title_book :: epub_book where
  "same_title_book =
     \<lparr>items = [doc_item ''c1'' ''p1.xhtml'' (notes_page ''one''),
               doc_item ''c2'' ''p2.xhtml'' (notes_page ''two three'')],
      spine = [str ''c1'', str ''c2'']\<rparr>"

definition three_word_book :: epub_book where
  "three_word_book =
     \<lparr>items = [doc_item ''c1'' ''ch1.xhtml'' ''one two three''], spine = [str ''c1'']\<rparr>"

section \<open>The loop of \<open>get_chapters\<close>\<close>

lemma chapters_loop_Inr:
  "chapters_loop e its acc = Inr chs \<longleftrightarrow>
     (\<exists>new. chs = acc @ new \<and> list_all2 (\<lambda>item ch. extract_chapter e item = Inr ch) its new)"
proof (induction its arbitrary: acc)
  case Nil
  then show ?case by auto
next
  case (Cons item rest)
  show ?case
  proof (cases "extract_chapter e item")
    case (Inl err)
    then show ?thesis by (auto simp: list_all2_Cons1)
  next
    case (Inr ch)
    then show ?thesis by (auto simp: Cons.IH list_all2_Cons1)
  qed
qed

lemma extract_chapter_Inl:
  "extract_chapter e item = Inl err \<longleftrightarrow>
     (err = AttributeError \<and> (\<exists>s. get_content e item = Str s)) \<or>
     (err = UnicodeDecodeError \<and>
      (\<exists>bs. get_content e item = Bytes bs \<and> utf8_decode (map unat bs) = None))"
  by (cases "get_content e item") (auto simp: extract_chapter_def split: option.splits)

lemma extract_chapter_Inr:
  "extract_chapter e item = Inr ch \<longleftrightarrow>
     (\<exists>bs t. get_content e item = Bytes bs \<and> utf8_decode (map unat bs) = Some t \<and>
             ch = make_chapter e item t)"
  by (cases "get_content e item") (auto simp: extract_chapter_def split: option.splits)

lemma chapters_loop_Inl_item:
  "chapters_loop e its acc = Inl err \<Longrightarrow> \<exists>item \<in> set its. extract_chapter e item = Inl err"
proof (induction its arbitrary: acc)
  case Nil
  then show ?case by simp
next
  case (Cons item rest)
  show ?case
  proof (cases "extract_chapter e item")
    case (Inl err')
    with Cons.prems have "err' = err" by simp
    with Inl show ?thesis by simp
  next
    case (Inr ch)
    with Cons.prems have "chapters_loop e rest (acc @ [ch]) = Inl err" by simp
    then have "\<exists>i \<in> set rest. extract_chapter e i = Inl err" by (rule Cons.IH)
    then show ?thesis by simp
  qed
qed

lemma chapters_loop_Inr_items:
  assumes "chapters_loop e its acc = Inr chs" and "item \<in> set its"
  shows "\<exists>ch. extract_chapter e item = Inr ch"
proof -
  from assms(1) obtain new where
    "list_all2 (\<lambda>item ch. extract_chapter e item = Inr ch) its new"
    by (auto simp: chapters_loop_Inr)
  with assms(2) show ?thesis
    by (auto simp: list_all2_conv_all_nth in_set_conv_nth)
qed

lemma get_chapters_fst:
  "fst (book e p) = Inr bk \<Longrightarrow>
   fst (get_chapters e p) = chapters_loop e (get_items_of_type bk ITEM_DOCUMENT) []"
  by (cases "book e p") (auto simp: get_chapters_def split: sum.splits)

section \<open>Properties of the parser\<close>

text \<open>
  C1 (as the code has it). The parser decodes what \<open>get_content()\<close> hands out strictly
  and has no handler. When the book has been read, \<open>get_chapters\<close> returns a list exactly
  when \<open>get_content()\<close> hands out, for every content document, bytes that are valid
  UTF-8; the list then has one chapter for each content document, in their order.
  The library hands out either its own UTF-8 serialisation of the document or, for a
  document that it cannot parse, the empty \<open>str\<close>. While the bytes it hands out are valid
  UTF-8, whatever the raw bytes of the documents were, a document for which it hands out
  a \<open>str\<close> makes \<open>get_chapters\<close> raise \<open>AttributeError\<close> and return no chapter at all.
  Should bytes that are not valid UTF-8 be handed out, and no \<open>str\<close>, the call raises
  \<open>UnicodeDecodeError\<close>: the parser itself replaces nothing.
\<close>

theorem get_chapters_decoding:
  assumes "fst (book e p) = Inr bk"
  shows "((\<exists>chs. fst (get_chapters e p) = Inr chs) \<longleftrightarrow>
            (\<forall>item \<in> set (get_items_of_type bk ITEM_DOCUMENT).
               \<exists>bs. get_content e item = Bytes bs \<and> utf8_decode (map unat bs) \<noteq> None)) \<and>
         (\<forall>chs. fst (get_chapters e p) = Inr chs \<longrightarrow>
            list_all2 (\<lambda>item ch. extract_chapter e item = Inr ch)
              (get_items_of_type bk ITEM_DOCUMENT) chs) \<and>
         ((\<exists>item \<in> set (get_items_of_type bk ITEM_DOCUMENT). \<exists>s. get_content e item = Str s) \<and>
          (\<forall>item \<in> set (get_items_of_type bk ITEM_DOCUMENT).
             \<forall>bs. get_content e item = Bytes bs \<longrightarrow> utf8_decode (map unat bs) \<noteq> None) \<longrightarrow>
          fst (get_chapters e p) = Inl AttributeError) \<and>
         ((\<exists>item \<in> set (get_items_of_type bk ITEM_DOCUMENT).
             \<exists>bs. get_content e item = Bytes bs \<and> utf8_decode (map unat bs) = None) \<and>
          (\<forall>item \<in> set (get_items_of_type bk ITEM_DOCUMENT). \<exists>bs. get_content e item = Bytes bs) \<longrightarrow>
          fst (get_chapters e p) = Inl UnicodeDecodeError)"
proof -
  let ?docs = "get_items_of_type bk ITEM_DOCUMENT"
  have g: "fst (get_chapters e p) = chapters_loop e ?docs []"
    using assms by (rule get_chapters_fst)
  have ok: "\<And>item. (\<exists>ch. extract_chapter e item = Inr ch) \<longleftrightarrow>
      (\<exists>bs. get_content e item = Bytes bs \<and> utf8_decode (map unat bs) \<noteq> None)"
    by (auto simp: extract_chapter_Inr)
  have fails: "\<exists>err. chapters_loop e ?docs [] = Inl err"
    if "item \<in> set ?docs" and "\<exists>err. extract_chapter e item = Inl err" for item
  proof (cases "chapters_loop e ?docs []")
    case (Inl err)
    then show ?thesis by blast
  next
    case (Inr chs)
    then have "\<exists>ch. extract_chapter e item = Inr ch"
      using that(1) by (rule chapters_loop_Inr_items)
    with that(2) show ?thesis by auto
  qed
  have 1: "(\<exists>chs. fst (get_chapters e p) = Inr chs) \<longleftrightarrow>
      (\<forall>item \<in> set ?docs. \<exists>bs. get_content e item = Bytes bs \<and> utf8_decode (map unat bs) \<noteq> None)"
  proof
    assume "\<exists>chs. fst (get_chapters e p) = Inr chs"
    then obtain chs where "chapters_loop e ?docs [] = Inr chs" using g by auto
    then have "\<forall>item \<in> set ?docs. \<exists>ch. extract_chapter e item = Inr ch"
      using chapters_loop_Inr_items by blast
    then show "\<forall>item \<in> set ?docs.
        \<exists>bs. get_content e item = Bytes bs \<and> utf8_decode (map unat bs) \<noteq> None"
      using ok by blast
  next
    assume a: "\<forall>item \<in> set ?docs.
        \<exists>bs. get_content e item = Bytes bs \<and> utf8_decode (map unat bs) \<noteq> None"
    show "\<exists>chs. fst (get_chapters e p) = Inr chs"
    proof (cases "chapters_loop e ?docs []")
      case (Inl err)
      then obtain item where "item \<in> set ?docs" and "extract_chapter e item = Inl err"
        using chapters_loop_Inl_item by blast
      moreover from this a ok have "\<exists>ch. extract_chapter e item = Inr ch" by blast
      ultimately show ?thesis by auto
    next
      case (Inr chs)
      then show ?thesis using g by simp
    qed
  qed
  have 2: "\<forall>chs. fst (get_chapters e p) = Inr chs \<longrightarrow>
      list_all2 (\<lambda>item ch. extract_chapter e item = Inr ch) ?docs chs"
    using g by (simp add: chapters_loop_Inr)
  have 3: "(\<exists>item \<in> set ?docs. \<exists>s. get_content e item = Str s) \<and>
      (\<forall>item \<in> set ?docs. \<forall>bs. get_content e item = Bytes bs \<longrightarrow>
         utf8_decode (map unat bs) \<noteq> None) \<longrightarrow>
      fst (get_chapters e p) = Inl AttributeError"
  proof
    assume a: "(\<exists>item \<in> set ?docs. \<exists>s. get_content e item = Str s) \<and>
      (\<forall>item \<in> set ?docs. \<forall>bs. get_content e item = Bytes bs \<longrightarrow>
         utf8_decode (map unat bs) \<noteq> None)"
    then obtain item s where item: "item \<in> set ?docs" and "get_content e item = Str s"
      by blast
    then have "\<exists>err. extract_chapter e item = Inl err"
      by (auto simp: extract_chapter_Inl)
    with item have "\<exists>err. chapters_loop e ?docs [] = Inl err" by (rule fails)
    then obtain err where err: "chapters_loop e ?docs [] = Inl err" by blast
    then obtain item' where "item' \<in> set ?docs" and "extract_chapter e item' = Inl err"
      using chapters_loop_Inl_item by blast
    with a have "err = AttributeError" by (auto simp: extract_chapter_Inl)
    with err g show "fst (get_chapters e p) = Inl AttributeError" by simp
  qed
  have 4: "(\<exists>item \<in> set ?docs.
        \<exists>bs. get_content e item = Bytes bs \<and> utf8_decode (map unat bs) = None) \<and>
      (\<forall>item \<in> set ?docs. \<exists>bs. get_content e item = Bytes bs) \<longrightarrow>
      fst (get_chapters e p) = Inl UnicodeDecodeError"
  proof
    assume a: "(\<exists>item \<in> set ?docs.
        \<exists>bs. get_content e item = Bytes bs \<and> utf8_decode (map unat bs) = None) \<and>
      (\<forall>item \<in> set ?docs. \<exists>bs. get_content e item = Bytes bs)"
    then obtain item bs where item: "item \<in> set ?docs"
      and "get_content e item = Bytes bs" "utf8_decode (map unat bs) = None"
      by blast
    then have "\<exists>err. extract_chapter e item = Inl err"
      by (auto simp: extract_chapter_Inl)
    with item have "\<exists>err. chapters_loop e ?docs [] = Inl err" by (rule fails)
    then obtain err where err: "chapters_loop e ?docs [] = Inl err" by blast
    then obtain item' where "item' \<in> set ?docs" and "extract_chapter e item' = Inl err"
      using chapters_loop_Inl_item by blast
    with a have "err = UnicodeDecodeError" by (auto simp: extract_chapter_Inl)
    with err g show "fst (get_chapters e p) = Inl UnicodeDecodeError" by simp
  qed
  from 1 2 3 4 show ?thesis by (intro conjI)
qed

text \<open>What the stand-in for \<open>get_content\<close> hands out as bytes is valid UTF-8.\<close>

lemma utf8_decode_ascii: "\<forall>b \<in> set bs. b < 128 \<Longrightarrow> utf8_decode bs \<noteq> None"
  by (induction bs) (auto simp: utf8_trail_def)

lemma sample_get_content_valid:
  assumes "sample_get_content item = Bytes bs"
  shows "utf8_decode (map unat bs) \<noteq> None"
proof (cases "utf8_decode (map unat (item_content item)) \<noteq> None")
  case True
  with assms show ?thesis
    by (auto simp: sample_get_content_def Let_def split: if_splits)
next
  case False
  with assms have "bs = filter (\<lambda>b. unat b < 128) (item_content item)"
    by (auto simp: sample_get_content_def Let_def split: if_splits)
  then have "\<forall>b \<in> set (map unat bs). b < 128" by auto
  then show ?thesis by (rule utf8_decode_ascii)
qed

theorem get_chapters_decoding_witness:
  "fst (book (sample_env two_chapter_book) (parser fresh_query)) = Inr two_chapter_book \<and>
   map_sum id (map content)
     (fst (get_chapters (sample_env two_chapter_book) (parser fresh_query))) =
     Inr [str ''Alpha line one\<newline>Alpha line two'', str ''Beta line one''] \<and>
   map (get_content (sample_env corrupt_book)) (get_items_of_type corrupt_book ITEM_DOCUMENT) =
     [Bytes (utf8 ''Alpha''), Bytes (utf8 ''Ba'')] \<and>
   map_sum id (map content)
     (fst (get_chapters (sample_env corrupt_book) (parser fresh_query))) =
     Inr [str ''Alpha'', str ''Ba''] \<and>
   fst (book (sample_env empty_document_book) (parser fresh_query)) = Inr empty_document_book \<and>
   map (get_content (sample_env empty_document_book))
     (get_items_of_type empty_document_book ITEM_DOCUMENT) = [Bytes (utf8 ''Alpha''), Str []] \<and>
   fst (get_chapters (sample_env empty_document_book) (parser fresh_query)) =
     Inl AttributeError"
proof -
  let ?e = "sample_env empty_document_book"
  let ?docs = "get_items_of_type empty_document_book ITEM_DOCUMENT"
  have b: "fst (book (sample_env two_chapter_book) (parser fresh_query)) = Inr two_chapter_book"
    by (simp add: book_def sample_env_def fresh_query_def)
  have 1: "map_sum id (map content)
     (fst (get_chapters (sample_env two_chapter_book) (parser fresh_query))) =
     Inr [str ''Alpha line one\<newline>Alpha line two'', str ''Beta line one'']"
    by code_simp
  have 2: "map (get_content (sample_env corrupt_book))
     (get_items_of_type corrupt_book ITEM_DOCUMENT) = [Bytes (utf8 ''Alpha''), Bytes (utf8 ''Ba'')]"
    by code_simp
  have 3: "map_sum id (map content)
     (fst (get_chapters (sample_env corrupt_book) (parser fresh_query))) =
     Inr [str ''Alpha'', str ''Ba'']"
    by code_simp
  have b': "fst (book ?e (parser fresh_query)) = Inr empty_document_book"
    by (simp add: book_def sample_env_def fresh_query_def)
  have 4: "map (get_content ?e) ?docs = [Bytes (utf8 ''Alpha''), Str []]"
    by code_simp
  have "\<exists>item \<in> set ?docs. \<exists>s. get_content ?e item = Str s"
  proof -
    have "Str [] \<in> set (map (get_content ?e) ?docs)" unfolding 4 by simp
    then obtain item where "item \<in> set ?docs" and "get_content ?e item = Str []"
      by auto
    then show ?thesis by blast
  qed
  moreover have "\<forall>item \<in> set ?docs. \<forall>bs. get_content ?e item = Bytes bs \<longrightarrow>
      utf8_decode (map unat bs) \<noteq> None"
    by (simp add: sample_env_def sample_get_content_valid)
  ultimately have 5: "fst (get_chapters ?e (parser fresh_query)) = Inl AttributeError"
    using get_chapters_decoding [OF b'] by blast
  from b 1 2 3 b' 4 5 show ?thesis by (intro conjI)
qed

text \<open>
  C1 as the specification states it fails: for the empty second document of
  \<open>empty_document_book\<close> the library hands out the empty \<open>str\<close>, and the extraction of the
  whole book raises.
\<close>

theorem get_chapters_decoding_counterexample:
  "get_content (sample_env empty_document_book) (doc_item ''c2'' ''ch2.xhtml'' []) = Str [] \<and>
   fst (get_chapters (sample_env empty_document_book) (parser fresh_query)) =
     Inl AttributeError"
  by code_simp

section \<open>The title of a chapter\<close>

lemma py_join_empty: "py_join [] xs = concat xs"
  by (induction xs rule: induct_list012) auto

lemma find_title_map_filter:
  "find_title soup tags =
     (case List.map_filter (soup_find soup) tags of
        [] \<Rightarrow> []
      | heading # _ \<Rightarrow> get_text [] True heading)"
  by (induction tags) (auto simp: List.map_filter_simps split: option.splits)

lemma last_dropWhile: "dropWhile P xs \<noteq> [] \<Longrightarrow> last (dropWhile P xs) = last xs"
  by (induction xs) (auto split: if_splits)

lemma py_strip_ends:
  assumes "py_strip s \<noteq> []"
  shows "\<not> is_space (hd (py_strip s)) \<and> \<not> is_space (last (py_strip s))"
proof -
  let ?t = "dropWhile is_space s"
  let ?u = "dropWhile is_space (rev ?t)"
  have u: "?u \<noteq> []" using assms by (simp add: py_strip_def)
  have t: "?t \<noteq> []"
  proof
    assume "?t = []"
    then have "?u = []" by (simp only: rev.simps dropWhile.simps)
    with u show False by simp
  qed
  have "\<not> is_space (hd ?u)" using u by (rule hd_dropWhile)
  then have 1: "\<not> is_space (last (py_strip s))"
    using u by (simp add: py_strip_def last_rev)
  have "last ?u = last (rev ?t)" using u by (rule last_dropWhile)
  also have "\<dots> = hd ?t" using t by (simp add: last_rev)
  finally have "\<not> is_space (last ?u)" using hd_dropWhile [OF t] by simp
  then have 2: "\<not> is_space (hd (py_strip s))"
    using u by (simp add: py_strip_def hd_rev)
  from 1 2 show ?thesis by simp
qed

lemma concat_ends:
  assumes "\<forall>s \<in> set ss. s \<noteq> [] \<and> \<not> P (hd s) \<and> \<not> P (last s)" and "concat ss \<noteq> []"
  shows "\<not> P (hd (concat ss)) \<and> \<not> P (last (concat ss))"
proof -
  from assms(2) have ne: "ss \<noteq> []" by auto
  then obtain s rest where ss: "ss = s # rest" by (cases ss) auto
  with assms(1) have "hd (concat ss) = hd s" by simp
  moreover have "last (concat ss) = last (last ss)"
    using ne assms(1) by (induction ss) (auto simp: last_append)
  moreover have "last ss \<in> set ss" using ne by simp
  ultimately show ?thesis using assms(1) ss by (metis list.set_intros(1))
qed

lemma get_text_stripped_ends:
  assumes "get_text [] True n \<noteq> []"
  shows "\<not> is_space (hd (get_text [] True n)) \<and> \<not> is_space (last (get_text [] True n))"
proof -
  let ?ss = "filter (\<lambda>s. s \<noteq> []) (map py_strip (strings_of n))"
  have "\<forall>s \<in> set ?ss. s \<noteq> [] \<and> \<not> is_space (hd s) \<and> \<not> is_space (last s)"
    using py_strip_ends by auto
  moreover have "get_text [] True n = concat ?ss"
    by (simp add: get_text_def all_strings_def py_join_empty)
  ultimately show ?thesis using assms concat_ends [of ?ss is_space] by simp
qed

text \<open>
  C2 (as the code has it). For every extracted chapter, \<open>file_name\<close> is the name of
  the item, as the book gives it. The title is the text of the first element that the
  document has among \<open>h1\<close>, \<open>h2\<close>, \<open>h3\<close>, \<open>title\<close>, in this order of priority:
  its strings, each stripped, joined without a separator. When the document has none of
  them, or when that text is empty, the title is \<open>file_name\<close>, the whole name and not its
  last component. So the title is not empty unless the name of the item is, and a title
  that comes from an element neither starts nor ends with white space.
\<close>

theorem extracted_title:
  assumes "extract_chapter e item = Inr ch"
  shows "\<exists>text_in. decode (get_content e item) = Inr text_in \<and>
           file_name ch = get_name item \<and>
           title ch =
             (case List.map_filter (soup_find (BeautifulSoup e text_in)) title_tags of
                [] \<Rightarrow> file_name ch
              | heading # _ \<Rightarrow>
                  if get_text [] True heading = [] then file_name ch
                  else get_text [] True heading) \<and>
           (file_name ch \<noteq> [] \<longrightarrow> title ch \<noteq> []) \<and>
           (title ch \<noteq> file_name ch \<longrightarrow>
              \<not> is_space (hd (title ch)) \<and> \<not> is_space (last (title ch)))"
proof -
  from assms obtain t where t: "decode (get_content e item) = Inr t"
    and ch: "ch = make_chapter e item t"
    by (auto simp: extract_chapter_def split: sum.splits)
  let ?found = "List.map_filter (soup_find (BeautifulSoup e t)) title_tags"
  have fn: "file_name ch = get_name item" by (simp add: ch make_chapter_def Let_def)
  have ti: "title ch =
     (case ?found of [] \<Rightarrow> file_name ch
      | heading # _ \<Rightarrow>
          if get_text [] True heading = [] then file_name ch else get_text [] True heading)"
    by (simp add: ch make_chapter_def Let_def find_title_map_filter split: list.splits)
  have ne: "file_name ch \<noteq> [] \<longrightarrow> title ch \<noteq> []"
    unfolding ti by (simp split: list.splits)
  have tr: "title ch \<noteq> file_name ch \<longrightarrow>
     \<not> is_space (hd (title ch)) \<and> \<not> is_space (last (title ch))"
    unfolding ti using get_text_stripped_ends by (simp split: list.splits)
  from t fn ti ne tr show ?thesis by blast
qed

theorem extracted_title_witness:
  "extract_chapter (sample_env heading_less_book) (doc_item ''c1'' ''ch1.xhtml'' heading_markup) =
     Inr \<lparr>title = str ''ChapterOne'',
          content = str ''Book\<newline>Second\<newline>Chapter\<newline>One\<newline>Text'',
          file_name = str ''ch1.xhtml''\<rparr> \<and>
   List.map_filter (soup_find heading_tree) title_tags =
     [Tag (str ''h1'') [NavigableString (str '' Chapter ''),
                       Tag (str ''b'') [NavigableString (str ''One '')]],
      Tag (str ''h2'') [NavigableString (str '' Second '')],
      Tag (str ''title'') [NavigableString (str ''Book'')]] \<and>
   extract_chapter (sample_env heading_less_book) (doc_item ''c1'' ''ch1.xhtml'' empty_h1_markup) =
     Inr \<lparr>title = str ''ch1.xhtml'', content = str ''Second'',
          file_name = str ''ch1.xhtml''\<rparr> \<and>
   get_name (doc_item ''c1'' ''ch1.xhtml'' heading_markup) = str ''ch1.xhtml'' \<and>
   \<not> is_space (hd (str ''ChapterOne'')) \<and> \<not> is_space (last (str ''ChapterOne''))"
proof -
  let ?e = "sample_env heading_less_book"
  let ?item = "doc_item ''c1'' ''ch1.xhtml'' heading_markup"
  let ?ch = "\<lparr>title = str ''ChapterOne'',
          content = str ''Book\<newline>Second\<newline>Chapter\<newline>One\<newline>Text'',
          file_name = str ''ch1.xhtml''\<rparr>"
  have 1: "extract_chapter ?e ?item = Inr ?ch"
    by code_simp
  have 2: "extract_chapter ?e (doc_item ''c1'' ''ch1.xhtml'' empty_h1_markup) =
     Inr \<lparr>title = str ''ch1.xhtml'', content = str ''Second'',
          file_name = str ''ch1.xhtml''\<rparr>"
    by code_simp
  have 3: "List.map_filter (soup_find heading_tree) title_tags =
     [Tag (str ''h1'') [NavigableString (str '' Chapter ''),
                       Tag (str ''b'') [NavigableString (str ''One '')]],
      Tag (str ''h2'') [NavigableString (str '' Second '')],
      Tag (str ''title'') [NavigableString (str ''Book'')]]"
    by code_simp
  have 4: "title ?ch \<noteq> file_name ?ch" by (simp add: str_def)
  from extracted_title [OF 1] have
    "file_name ?ch = get_name ?item \<and>
     (title ?ch \<noteq> file_name ?ch \<longrightarrow>
        \<not> is_space (hd (title ?ch)) \<and> \<not> is_space (last (title ?ch)))"
    by blast
  with 4 have "get_name ?item = str ''ch1.xhtml'' \<and>
     \<not> is_space (hd (str ''ChapterOne'')) \<and> \<not> is_space (last (str ''ChapterOne''))"
    by simp
  with 1 2 3 show ?thesis by blast
qed

text \<open>
  C2 as the specification states it fails: the document without a heading at
  \<open>"text/ch05.xhtml"\<close> gets the title \<open>"text/ch05.xhtml"\<close>, not \<open>"ch05.xhtml"\<close>.
\<close>

theorem extracted_title_counterexample:
  "map_sum id (map title)
     (fst (get_chapters (sample_env heading_less_book) (parser fresh_query))) =
     Inr [str ''text/ch05.xhtml''] \<and>
   str ''text/ch05.xhtml'' \<noteq> str ''ch05.xhtml''"
  by code_simp

section \<open>The order of the chapters\<close>

lemma extract_chapter_file_name: "extract_chapter e item = Inr ch \<Longrightarrow> file_name ch = get_name item"
  by (auto simp: extract_chapter_Inr make_chapter_def Let_def)

lemma extracted_file_names:
  "list_all2 (\<lambda>item ch. extract_chapter e item = Inr ch) its chs \<Longrightarrow>
   map file_name chs = map get_name its"
  by (induction its chs rule: list_all2_induct) (auto simp: extract_chapter_file_name)

text \<open>
  C3 (as the code has it). When the extraction returns, the chapter list has one chapter
  for each item of type document of the book, in the order of the book's list of items
  (the order of the manifest): the chapter at position \<open>k\<close>, for \<open>k\<close> from \<open>0\<close> to
  \<open>n - 1\<close>, is the chapter extracted from the \<open>k\<close>-th such item, with its title, its
  content and the name of the item as its \<open>file_name\<close>. The spine plays no part: with any
  other spine the loop returns the same list. A chapter has no field \<open>order_index\<close>; its
  position in the list is its only index.
\<close>

theorem get_chapters_order:
  assumes "fst (book e p) = Inr bk" and "fst (get_chapters e p) = Inr chs"
  shows "list_all2 (\<lambda>item ch. extract_chapter e item = Inr ch)
           (get_items_of_type bk ITEM_DOCUMENT) chs \<and>
         (\<forall>k < length chs.
            extract_chapter e (get_items_of_type bk ITEM_DOCUMENT ! k) = Inr (chs ! k)) \<and>
         map file_name chs = map get_name (get_items_of_type bk ITEM_DOCUMENT) \<and>
         length chs = length (get_items_of_type bk ITEM_DOCUMENT) \<and>
         (\<forall>k < length chs. file_name (chs ! k) = get_name (get_items_of_type bk ITEM_DOCUMENT ! k)) \<and>
         (\<forall>sp. chapters_loop e (get_items_of_type (bk\<lparr>spine := sp\<rparr>) ITEM_DOCUMENT) [] = Inr chs)"
proof -
  let ?docs = "get_items_of_type bk ITEM_DOCUMENT"
  from assms have loop: "chapters_loop e ?docs [] = Inr chs"
    by (simp add: get_chapters_fst)
  then have all2: "list_all2 (\<lambda>item ch. extract_chapter e item = Inr ch) ?docs chs"
    by (simp add: chapters_loop_Inr)
  then have names: "map file_name chs = map get_name ?docs"
    by (rule extracted_file_names)
  have len: "length chs = length ?docs"
    using all2 by (simp add: list_all2_lengthD)
  have nth: "\<forall>k < length chs. file_name (chs ! k) = get_name (?docs ! k)"
  proof (intro allI impI)
    fix k assume k: "k < length chs"
    then have "file_name (chs ! k) = map file_name chs ! k" by simp
    also have "\<dots> = map get_name ?docs ! k" by (simp only: names)
    also have "\<dots> = get_name (?docs ! k)" using k len by simp
    finally show "file_name (chs ! k) = get_name (?docs ! k)" .
  qed
  have sp: "\<forall>sp. chapters_loop e (get_items_of_type (bk\<lparr>spine := sp\<rparr>) ITEM_DOCUMENT) [] = Inr chs"
    using loop by (simp add: get_items_of_type_def)
  have each: "\<forall>k < length chs. extract_chapter e (?docs ! k) = Inr (chs ! k)"
    using all2 by (simp add: list_all2_conv_all_nth)
  from all2 each names len nth sp show ?thesis by (intro conjI)
qed

theorem get_chapters_order_witness:
  "fst (book (sample_env reordered_book) (parser fresh_query)) = Inr reordered_book \<and>
   fst (get_chapters (sample_env reordered_book) (parser fresh_query)) =
     Inr [\<lparr>title = str ''ch1.xhtml'', content = str ''Alpha'', file_name = str ''ch1.xhtml''\<rparr>,
          \<lparr>title = str ''ch2.xhtml'', content = str ''Beta'', file_name = str ''ch2.xhtml''\<rparr>] \<and>
   map get_name (get_items_of_type reordered_book ITEM_DOCUMENT) =
     [str ''ch1.xhtml'', str ''ch2.xhtml'']"
proof -
  let ?e = "sample_env reordered_book"
  let ?chs = "[\<lparr>title = str ''ch1.xhtml'', content = str ''Alpha'', file_name = str ''ch1.xhtml''\<rparr>,
          \<lparr>title = str ''ch2.xhtml'', content = str ''Beta'', file_name = str ''ch2.xhtml''\<rparr>]"
  have b: "fst (book ?e (parser fresh_query)) = Inr reordered_book"
    by (simp add: book_def sample_env_def fresh_query_def)
  have g: "fst (get_chapters ?e (parser fresh_query)) = Inr ?chs"
    by code_simp
  from get_chapters_order [OF b g]
  have "map file_name ?chs = map get_name (get_items_of_type reordered_book ITEM_DOCUMENT)"
    by blast
  then have "map get_name (get_items_of_type reordered_book ITEM_DOCUMENT) =
     [str ''ch1.xhtml'', str ''ch2.xhtml'']"
    by simp
  with b g show ?thesis by blast
qed

text \<open>
  C3 as the specification states it fails: the chapters of \<open>reordered_book\<close> come in the
  order of its items, while its spine declares the opposite order.
\<close>

theorem get_chapters_order_counterexample:
  "map_sum id (map file_name)
     (fst (get_chapters (sample_env reordered_book) (parser fresh_query))) =
     Inr [str ''ch1.xhtml'', str ''ch2.xhtml''] \<and>
   spec_reading_order reordered_book = [str ''ch2.xhtml'', str ''ch1.xhtml'']"
  by code_simp

section \<open>The search\<close>

subsection \<open>The loops as a concatenation\<close>

lemma foldl_append_concat: "foldl (\<lambda>rs x. rs @ f x) acc xs = acc @ concat (map f xs)"
  by (induction xs arbitrary: acc) auto

lemma enumerate_nth: "enumerate 0 xs = map (\<lambda>i. (i, xs ! i)) [0..<length xs]"
  by (rule nth_equalityI) (simp_all add: nth_enumerate_eq)

lemma chapter_results_concat:
  "chapter_results compiled c results ch =
     results @ concat (map (\<lambda>i. line_results compiled c ch (lines_of ch) (i, lines_of ch ! i))
                         [0..<length (lines_of ch)])"
  by (simp add: chapter_results_def Let_def foldl_append_concat enumerate_nth comp_def)

lemma search_loop_concat:
  "foldl (chapter_results compiled c) acc chs =
     acc @ concat (map (\<lambda>ch. concat (map (\<lambda>i. line_results compiled c ch (lines_of ch)
                                               (i, lines_of ch ! i))
                                       [0..<length (lines_of ch)])) chs)"
  by (induction chs arbitrary: acc) (auto simp: chapter_results_concat)

lemma search_Inr:
  assumes "fst (search e pattern cs c rx q) = Inr results"
  shows "\<exists>compiled chs.
           re_compile e (if rx then pattern else re_escape pattern) (\<not> cs) = Inr compiled \<and>
           fst (chapters e q) = Inr chs \<and>
           results = concat (map (\<lambda>ch. concat (map (\<lambda>i. line_results compiled c ch (lines_of ch)
                                               (i, lines_of ch ! i))
                                       [0..<length (lines_of ch)])) chs)"
  using assms
  by (cases "chapters e q")
     (auto simp: search_def Let_def search_loop_concat split: sum.splits if_splits)

subsection \<open>The context of a result\<close>

lemma py_slice_window:
  assumes "0 \<le> c" and "i < length lines"
  shows "py_slice lines (max 0 (int i - c)) (min (int (length lines)) (int i + c + 1)) =
         map (\<lambda>j. lines ! nat j) [max 0 (int i - c) .. min (int (length lines) - 1) (int i + c)]"
proof -
  define n where "n = int (length lines)"
  define start where "start = max 0 (int i - c)"
  define stop where "stop = min n (int i + c + 1)"
  have b: "0 \<le> start" "start \<le> int i" "int i < stop" "stop \<le> n"
    using assms by (simp_all add: start_def stop_def n_def)
  have s1: "slice_index n start = nat start"
    using b by (simp add: slice_index_def)
  have s2: "slice_index n stop = nat stop"
    using b by (simp add: slice_index_def)
  have hi: "min (n - 1) (int i + c) = stop - 1" by (simp add: stop_def)
  have len: "nat stop \<le> length lines" using b by (simp add: n_def)
  have "take (nat stop - nat start) (drop (nat start) lines) =
        map (\<lambda>j. lines ! nat j) [start..stop - 1]"
  proof (rule nth_equalityI)
    show "length (take (nat stop - nat start) (drop (nat start) lines)) =
          length (map (\<lambda>j. lines ! nat j) [start..stop - 1])"
      using b len by simp
  next
    fix k assume "k < length (take (nat stop - nat start) (drop (nat start) lines))"
    then have k: "k < nat stop - nat start" by simp
    then have k': "start + int k \<le> stop - 1" using b by linarith
    have "take (nat stop - nat start) (drop (nat start) lines) ! k = lines ! (nat start + k)"
      using k len by simp
    also have "nat start + k = nat (start + int k)" using b by (simp add: nat_add_distrib)
    also have "lines ! nat (start + int k) = map (\<lambda>j. lines ! nat j) [start..stop - 1] ! k"
    proof -
      have "[start..stop - 1] ! k = start + int k" using k' by (rule nth_upto)
      moreover have "k < length [start..stop - 1]" using k' by simp
      ultimately show ?thesis by simp
    qed
    finally show "take (nat stop - nat start) (drop (nat start) lines) ! k =
        map (\<lambda>j. lines ! nat j) [start..stop - 1] ! k" .
  qed
  then show ?thesis
    unfolding py_slice_def Let_def
    by (simp only: s1 s2 hi n_def [symmetric] start_def [symmetric] stop_def [symmetric])
qed

lemma build_context_window:
  "0 \<le> c \<Longrightarrow> i < length lines \<Longrightarrow> build_context lines i c = spec_window lines i c"
  by (simp only: build_context_def spec_window_def Let_def py_slice_window)

lemma build_context_zero:
  assumes "i < length lines"
  shows "build_context lines i 0 = lines ! i"
proof -
  have "min (int (length lines) - 1) (int i) = int i"
    using assms by simp
  then have "[int i..min (int (length lines) - 1) (int i)] = [int i]"
    by (simp only: upto_single)
  then show ?thesis
    using assms build_context_window [of 0 i lines]
    by (simp add: spec_window_def)
qed

lemma line_results_context:
  "r \<in> set (line_results compiled c ch lines (i, line)) \<Longrightarrow>
   result_context r = build_context lines i c \<and> line_number r = int i + 1 \<and>
   chapter_title r = title ch \<and> result_file_name r = file_name ch"
  by (auto simp: line_results_def Let_def split: if_splits)

text \<open>
  C4. When a search with a non-negative \<open>context_lines\<close> returns, its results are, chapter
  by chapter and line by line, the results of the lines; and every result of line \<open>i\<close>
  (counted from \<open>0\<close>) of a chapter has as its context the lines of the chapter from
  \<open>max(0, i - context_lines)\<close> to \<open>min(lastLine, i + context_lines)\<close>, both included, in
  their order, joined by a single newline. With \<open>context_lines = 0\<close> the context is the
  matched line itself.
\<close>

theorem search_context_window:
  assumes "fst (search e pattern cs c rx q) = Inr results" and "0 \<le> c"
  shows "\<exists>compiled chs.
           fst (chapters e q) = Inr chs \<and>
           results =
             concat (map (\<lambda>ch. concat (map (\<lambda>i. line_results compiled c ch (lines_of ch)
                                                (i, lines_of ch ! i))
                                        [0..<length (lines_of ch)])) chs) \<and>
           (\<forall>ch i. i < length (lines_of ch) \<longrightarrow>
              (\<forall>r \<in> set (line_results compiled c ch (lines_of ch) (i, lines_of ch ! i)).
                 result_context r = spec_window (lines_of ch) i c \<and>
                 (c = 0 \<longrightarrow> result_context r = lines_of ch ! i)))"
proof -
  from search_Inr [OF assms(1)] obtain compiled chs where
    chs: "fst (chapters e q) = Inr chs" and
    res: "results =
      concat (map (\<lambda>ch. concat (map (\<lambda>i. line_results compiled c ch (lines_of ch)
                                         (i, lines_of ch ! i))
                                 [0..<length (lines_of ch)])) chs)"
    by blast
  have "\<forall>ch i. i < length (lines_of ch) \<longrightarrow>
      (\<forall>r \<in> set (line_results compiled c ch (lines_of ch) (i, lines_of ch ! i)).
         result_context r = spec_window (lines_of ch) i c \<and>
         (c = 0 \<longrightarrow> result_context r = lines_of ch ! i))"
  proof (intro allI impI ballI conjI)
    fix ch i r
    assume i: "i < length (lines_of ch)"
      and r: "r \<in> set (line_results compiled c ch (lines_of ch) (i, lines_of ch ! i))"
    from line_results_context [OF r]
    have ctx: "result_context r = build_context (lines_of ch) i c" by simp
    then show "result_context r = spec_window (lines_of ch) i c"
      using assms(2) i by (simp add: build_context_window)
    assume "c = 0"
    with ctx show "result_context r = lines_of ch ! i"
      using i by (simp add: build_context_zero)
  qed
  with chs res show ?thesis by blast
qed

theorem search_context_window_witness:
  "sample_search two_chapter_book ''line'' False 1 False =
     Inr [sample_result ''ch1.xhtml'' ''line'' ''Alpha line one\<newline>Alpha line two'' 1,
          sample_result ''ch1.xhtml'' ''line'' ''Alpha line one\<newline>Alpha line two'' 2,
          sample_result ''ch2.xhtml'' ''line'' ''Beta line one'' 1] \<and>
   sample_search two_chapter_book ''two'' False 0 False =
     Inr [sample_result ''ch1.xhtml'' ''two'' ''Alpha line two'' 2] \<and>
   (\<exists>chs. fst (chapters (sample_env two_chapter_book) fresh_query) = Inr chs)"
proof -
  let ?e = "sample_env two_chapter_book"
  let ?rs = "[sample_result ''ch1.xhtml'' ''line'' ''Alpha line one\<newline>Alpha line two'' 1,
          sample_result ''ch1.xhtml'' ''line'' ''Alpha line one\<newline>Alpha line two'' 2,
          sample_result ''ch2.xhtml'' ''line'' ''Beta line one'' 1]"
  have 1: "sample_search two_chapter_book ''line'' False 1 False = Inr ?rs"
    by code_simp
  have 2: "sample_search two_chapter_book ''two'' False 0 False =
     Inr [sample_result ''ch1.xhtml'' ''two'' ''Alpha line two'' 2]"
    by code_simp
  have h: "fst (search ?e (str ''line'') False 1 False fresh_query) = Inr ?rs"
    using 1 by (simp only: sample_search_def)
  have "(0::int) \<le> 1" by simp
  from search_context_window [OF h this]
  have "\<exists>chs. fst (chapters ?e fresh_query) = Inr chs" by blast
  with 1 2 show ?thesis by blast
qed

subsection \<open>Splitting what was joined\<close>

lemma split_sep_piece:
  assumes "sep \<noteq> []"
    and "\<forall>k < length l. take (length sep) (drop k (l @ sep)) \<noteq> sep"
  shows "split_sep sep cur (l @ sep @ rest) = (cur @ l) # split_sep sep [] rest"
  using assms(2)
proof (induction l arbitrary: cur)
  case Nil
  from assms(1) obtain x xs where sep: "sep = x # xs" by (cases sep) auto
  have "split_sep sep cur (sep @ rest) = cur # split_sep sep [] (drop (length sep) (sep @ rest))"
    unfolding sep by simp
  then show ?case by simp
next
  case (Cons a l)
  have "take (length sep) (drop 0 ((a # l) @ sep)) \<noteq> sep"
    using Cons.prems by blast
  then have no: "take (length sep) (a # (l @ sep @ rest)) \<noteq> sep"
    using assms(1) by (cases sep) (auto simp: take_Cons')
  have "\<forall>k < length l. take (length sep) (drop k (l @ sep)) \<noteq> sep"
  proof (intro allI impI)
    fix k assume "k < length l"
    then have "Suc k < length (a # l)" by simp
    with Cons.prems have "take (length sep) (drop (Suc k) ((a # l) @ sep)) \<noteq> sep" by blast
    then show "take (length sep) (drop k (l @ sep)) \<noteq> sep" by simp
  qed
  then have "split_sep sep (cur @ [a]) (l @ sep @ rest) = ((cur @ [a]) @ l) # split_sep sep [] rest"
    by (rule Cons.IH)
  with no show ?case by simp
qed

lemma split_sep_last:
  assumes "\<forall>k < length l. take (length sep) (drop k (l @ sep)) \<noteq> sep"
  shows "split_sep sep cur l = [cur @ l]"
  using assms
proof (induction l arbitrary: cur)
  case Nil
  then show ?case by simp
next
  case (Cons a l)
  have no: "take (length sep) (a # l) \<noteq> sep"
  proof
    assume eq: "take (length sep) (a # l) = sep"
    then have "length (take (length sep) (a # l)) = length sep" by simp
    then have "length sep \<le> length (a # l)" by (simp del: length_Cons)
    then have "take (length sep) ((a # l) @ sep) = take (length sep) (a # l)"
      by (simp del: length_Cons append_Cons take_Cons')
    with eq have "take (length sep) (drop 0 ((a # l) @ sep)) = sep" by simp
    with Cons.prems show False by blast
  qed
  have "\<forall>k < length l. take (length sep) (drop k (l @ sep)) \<noteq> sep"
  proof (intro allI impI)
    fix k assume "k < length l"
    then have "Suc k < length (a # l)" by simp
    with Cons.prems have "take (length sep) (drop (Suc k) ((a # l) @ sep)) \<noteq> sep" by blast
    then show "take (length sep) (drop k (l @ sep)) \<noteq> sep" by simp
  qed
  then have "split_sep sep (cur @ [a]) l = [(cur @ [a]) @ l]"
    by (rule Cons.IH)
  with no show ?case by simp
qed

lemma split_join:
  assumes "sep \<noteq> []" and "xs \<noteq> []"
    and "\<forall>l \<in> set xs. \<forall>k < length l. take (length sep) (drop k (l @ sep)) \<noteq> sep"
  shows "py_split sep (py_join sep xs) = xs"
  using assms(2,3)
proof (induction xs rule: induct_list012)
  case 1
  then show ?case by simp
next
  case (2 x)
  then show ?case by (simp add: py_split_def split_sep_last)
next
  case (3 x y zs)
  then have "py_split sep (py_join sep (y # zs)) = y # zs" by simp
  moreover have "split_sep sep [] (x @ sep @ py_join sep (y # zs)) =
      ([] @ x) # split_sep sep [] (py_join sep (y # zs))"
    using assms(1) 3(4) by (intro split_sep_piece) simp_all
  ultimately show ?case by (simp add: py_split_def)
qed

lemma single_sep_free:
  assumes "x \<notin> set l"
  shows "\<forall>k < length l. take (length [x]) (drop k (l @ [x])) \<noteq> [x]"
proof (intro allI impI)
  fix k assume k: "k < length l"
  then have "drop k (l @ [x]) = l ! k # drop (Suc k) (l @ [x])"
    by (simp add: Cons_nth_drop_Suc nth_append)
  moreover have "l ! k \<noteq> x" using assms k by (metis nth_mem)
  ultimately show "take (length [x]) (drop k (l @ [x])) \<noteq> [x]" by simp
qed

lemma split_join_lines:
  assumes "xs \<noteq> []" and "\<forall>l \<in> set xs. NL \<notin> set l"
  shows "py_split [NL] (py_join [NL] xs) = xs"
proof (rule split_join)
  show "[NL] \<noteq> []" by simp
  show "xs \<noteq> []" by fact
  show "\<forall>l \<in> set xs. \<forall>k < length l. take (length [NL]) (drop k (l @ [NL])) \<noteq> [NL]"
  proof
    fix l assume "l \<in> set xs"
    then have "NL \<notin> set l" using assms(2) by simp
    then show "\<forall>k < length l. take (length [NL]) (drop k (l @ [NL])) \<noteq> [NL]"
      by (rule single_sep_free)
  qed
qed

lemma split_sep_single_free:
  "l \<in> set (split_sep [x] cur s) \<Longrightarrow> x \<notin> set cur \<Longrightarrow> x \<notin> set l"
proof (induction s arbitrary: cur)
  case Nil
  then show ?case by simp
next
  case (Cons c s)
  show ?case
  proof (cases "c = x")
    case True
    with Cons.prems have "l = cur \<or> l \<in> set (split_sep [x] [] s)" by simp
    then show ?thesis using Cons.IH [of "[]"] Cons.prems(2) by auto
  next
    case False
    with Cons.prems have "l \<in> set (split_sep [x] (cur @ [c]) s)" by simp
    then show ?thesis using Cons.IH [of "cur @ [c]"] Cons.prems(2) False by auto
  qed
qed

lemma lines_of_free: "l \<in> set (lines_of ch) \<Longrightarrow> NL \<notin> set l"
  using split_sep_single_free [of l NL "[]" "content ch"]
  by (simp add: lines_of_def py_split_def)

subsection \<open>The line of a result\<close>

lemma window_lines:
  assumes "0 \<le> c" and "i < length lines"
  defines "w \<equiv> map (\<lambda>j. lines ! nat j)
                   [max 0 (int i - c) .. min (int (length lines) - 1) (int i + c)]"
  shows "lines ! i \<in> set w" and "set w \<subseteq> set lines"
proof -
  have "int i \<in> set [max 0 (int i - c) .. min (int (length lines) - 1) (int i + c)]"
    using assms(1,2) by simp
  then have "lines ! nat (int i) \<in> set w" unfolding w_def set_map by (rule imageI)
  then show "lines ! i \<in> set w" by simp
  show "set w \<subseteq> set lines"
  proof
    fix l assume "l \<in> set w"
    then obtain j where j: "0 \<le> j" "j \<le> int (length lines) - 1" and l: "l = lines ! nat j"
      unfolding w_def by auto
    from j have "nat j < length lines" by linarith
    with l show "l \<in> set lines" by simp
  qed
qed

lemma build_context_split:
  assumes "0 \<le> c" and "i < length lines" and "\<forall>l \<in> set lines. NL \<notin> set l"
  shows "lines ! i \<in> set (py_split [NL] (build_context lines i c))"
proof -
  let ?w = "map (\<lambda>j. lines ! nat j)
              [max 0 (int i - c) .. min (int (length lines) - 1) (int i + c)]"
  have mem: "lines ! i \<in> set ?w" and sub: "set ?w \<subseteq> set lines"
    using window_lines [OF assms(1,2)] by simp_all
  have ne: "?w \<noteq> []" using mem by auto
  have free: "\<forall>l \<in> set ?w. NL \<notin> set l" using sub assms(3) by blast
  have "build_context lines i c = py_join [NL] ?w"
    using assms(1,2) by (simp only: build_context_def Let_def py_slice_window)
  then have "py_split [NL] (build_context lines i c) = ?w"
    using split_join_lines [OF ne free] by simp
  with mem show ?thesis by simp
qed

text \<open>
  C10. When a search with a non-negative \<open>context_lines\<close> returns, every result of line
  \<open>i\<close> (counted from \<open>0\<close>) of a chapter has the line number \<open>i + 1\<close>, which lies
  between \<open>1\<close> and the number of lines of the chapter's content; its context, split at
  the newlines, contains the line of the chapter at index \<open>line_number - 1\<close>; and all the
  results of that line have the same line number and the same context.
\<close>

theorem search_line_numbers:
  assumes "fst (search e pattern cs c rx q) = Inr results" and "0 \<le> c"
  shows "\<exists>compiled chs.
           fst (chapters e q) = Inr chs \<and>
           results =
             concat (map (\<lambda>ch. concat (map (\<lambda>i. line_results compiled c ch (lines_of ch)
                                                (i, lines_of ch ! i))
                                        [0..<length (lines_of ch)])) chs) \<and>
           (\<forall>ch i. i < length (lines_of ch) \<longrightarrow>
              (\<forall>r \<in> set (line_results compiled c ch (lines_of ch) (i, lines_of ch ! i)).
                 line_number r = int i + 1 \<and>
                 1 \<le> line_number r \<and> line_number r \<le> int (length (lines_of ch)) \<and>
                 lines_of ch ! nat (line_number r - 1) \<in> set (py_split [NL] (result_context r)) \<and>
                 (\<forall>r' \<in> set (line_results compiled c ch (lines_of ch) (i, lines_of ch ! i)).
                    line_number r' = line_number r \<and> result_context r' = result_context r)))"
proof -
  from search_Inr [OF assms(1)] obtain compiled chs where
    chs: "fst (chapters e q) = Inr chs" and
    res: "results =
      concat (map (\<lambda>ch. concat (map (\<lambda>i. line_results compiled c ch (lines_of ch)
                                         (i, lines_of ch ! i))
                                 [0..<length (lines_of ch)])) chs)"
    by blast
  have "\<forall>ch i. i < length (lines_of ch) \<longrightarrow>
      (\<forall>r \<in> set (line_results compiled c ch (lines_of ch) (i, lines_of ch ! i)).
         line_number r = int i + 1 \<and>
         1 \<le> line_number r \<and> line_number r \<le> int (length (lines_of ch)) \<and>
         lines_of ch ! nat (line_number r - 1) \<in> set (py_split [NL] (result_context r)) \<and>
         (\<forall>r' \<in> set (line_results compiled c ch (lines_of ch) (i, lines_of ch ! i)).
            line_number r' = line_number r \<and> result_context r' = result_context r))"
  proof (intro allI impI ballI)
    fix ch i r
    assume i: "i < length (lines_of ch)"
      and r: "r \<in> set (line_results compiled c ch (lines_of ch) (i, lines_of ch ! i))"
    from line_results_context [OF r]
    have ctx: "result_context r = build_context (lines_of ch) i c"
      and ln: "line_number r = int i + 1" by simp_all
    have free: "\<forall>l \<in> set (lines_of ch). NL \<notin> set l"
      using lines_of_free by blast
    have mem: "lines_of ch ! i \<in> set (py_split [NL] (result_context r))"
      unfolding ctx using assms(2) i free by (rule build_context_split)
    have same: "\<forall>r' \<in> set (line_results compiled c ch (lines_of ch) (i, lines_of ch ! i)).
        line_number r' = line_number r \<and> result_context r' = result_context r"
      using line_results_context ctx ln by auto
    show "line_number r = int i + 1 \<and>
         1 \<le> line_number r \<and> line_number r \<le> int (length (lines_of ch)) \<and>
         lines_of ch ! nat (line_number r - 1) \<in> set (py_split [NL] (result_context r)) \<and>
         (\<forall>r' \<in> set (line_results compiled c ch (lines_of ch) (i, lines_of ch ! i)).
            line_number r' = line_number r \<and> result_context r' = result_context r)"
      using ln i mem same by simp
  qed
  with chs res show ?thesis by blast
qed

theorem search_line_numbers_witness:
  "sample_search two_chapter_book ''line'' False 1 False =
     Inr [sample_result ''ch1.xhtml'' ''line'' ''Alpha line one\<newline>Alpha line two'' 1,
          sample_result ''ch1.xhtml'' ''line'' ''Alpha line one\<newline>Alpha line two'' 2,
          sample_result ''ch2.xhtml'' ''line'' ''Beta line one'' 1] \<and>
   sample_search two_chapter_book ''l'' False 0 False =
     Inr [sample_result ''ch1.xhtml'' ''l'' ''Alpha line one'' 1,
          sample_result ''ch1.xhtml'' ''l'' ''Alpha line one'' 1,
          sample_result ''ch1.xhtml'' ''l'' ''Alpha line two'' 2,
          sample_result ''ch1.xhtml'' ''l'' ''Alpha line two'' 2,
          sample_result ''ch2.xhtml'' ''l'' ''Beta line one'' 1] \<and>
   (\<exists>chs. fst (chapters (sample_env two_chapter_book) fresh_query) = Inr chs \<and>
           map lines_of chs =
             [[str ''Alpha line one'', str ''Alpha line two''], [str ''Beta line one'']])"
proof -
  let ?e = "sample_env two_chapter_book"
  let ?rs = "[sample_result ''ch1.xhtml'' ''line'' ''Alpha line one\<newline>Alpha line two'' 1,
          sample_result ''ch1.xhtml'' ''line'' ''Alpha line one\<newline>Alpha line two'' 2,
          sample_result ''ch2.xhtml'' ''line'' ''Beta line one'' 1]"
  have 1: "sample_search two_chapter_book ''line'' False 1 False = Inr ?rs"
    by code_simp
  have 2: "sample_search two_chapter_book ''l'' False 0 False =
     Inr [sample_result ''ch1.xhtml'' ''l'' ''Alpha line one'' 1,
          sample_result ''ch1.xhtml'' ''l'' ''Alpha line one'' 1,
          sample_result ''ch1.xhtml'' ''l'' ''Alpha line two'' 2,
          sample_result ''ch1.xhtml'' ''l'' ''Alpha line two'' 2,
          sample_result ''ch2.xhtml'' ''l'' ''Beta line one'' 1]"
    by code_simp
  have 3: "map lines_of (projr (fst (chapters ?e fresh_query))) =
             [[str ''Alpha line one'', str ''Alpha line two''], [str ''Beta line one'']]"
    by code_simp
  have h: "fst (search ?e (str ''line'') False 1 False fresh_query) = Inr ?rs"
    using 1 by (simp only: sample_search_def)
  have "(0::int) \<le> 1" by simp
  from search_line_numbers [OF h this]
  obtain chs where "fst (chapters ?e fresh_query) = Inr chs" by blast
  with 3 have "\<exists>chs. fst (chapters ?e fresh_query) = Inr chs \<and>
           map lines_of chs =
             [[str ''Alpha line one'', str ''Alpha line two''], [str ''Beta line one'']]"
    by simp
  with 1 2 show ?thesis by blast
qed

subsection \<open>The matched text\<close>

lemma match_text_findall_item:
  "match_text (findall_item_of m) = (case grps m of [] \<Rightarrow> whole m | g # _ \<Rightarrow> g)"
  by (simp add: findall_item_of_def split: list.splits)

lemma line_results_match:
  "map match (line_results compiled c ch lines (i, line)) =
     map (\<lambda>m. case grps m of [] \<Rightarrow> whole m | g # _ \<Rightarrow> g) (compiled line)"
  by (simp add: line_results_def Let_def findall_def comp_def match_text_findall_item)

text \<open>
  C6. When a search returns, the matched texts of the results of a line are, match by
  match, the text of the first capturing group of the match when the pattern has at
  least one group, and the text of the whole match otherwise. The search does not
  change the text that the pattern engine reports, whatever the case sensitivity: when
  the engine reports the texts as they stand in the line, the matched text of every
  result occurs literally in its line. (A case-insensitive search for \<open>"the"\<close> in
  \<open>"The cat sat."\<close> gives \<open>"The"\<close>.)
\<close>

theorem search_matched_text:
  assumes "fst (search e pattern cs c rx q) = Inr results"
  shows "\<exists>compiled chs.
           re_compile e (if rx then pattern else re_escape pattern) (\<not> cs) = Inr compiled \<and>
           fst (chapters e q) = Inr chs \<and>
           results =
             concat (map (\<lambda>ch. concat (map (\<lambda>i. line_results compiled c ch (lines_of ch)
                                                (i, lines_of ch ! i))
                                        [0..<length (lines_of ch)])) chs) \<and>
           (\<forall>ch lines i line.
              map match (line_results compiled c ch lines (i, line)) =
                map (\<lambda>m. case grps m of [] \<Rightarrow> whole m | g # _ \<Rightarrow> g) (compiled line) \<and>
              ((\<forall>m \<in> set (compiled line).
                  sublist (whole m) line \<and> (\<forall>g \<in> set (grps m). sublist g line)) \<longrightarrow>
               (\<forall>r \<in> set (line_results compiled c ch lines (i, line)). sublist (match r) line)))"
proof -
  from search_Inr [OF assms] obtain compiled chs where
    comp: "re_compile e (if rx then pattern else re_escape pattern) (\<not> cs) = Inr compiled" and
    chs: "fst (chapters e q) = Inr chs" and
    res: "results =
      concat (map (\<lambda>ch. concat (map (\<lambda>i. line_results compiled c ch (lines_of ch)
                                         (i, lines_of ch ! i))
                                 [0..<length (lines_of ch)])) chs)"
    by blast
  have "\<forall>ch lines i line.
      map match (line_results compiled c ch lines (i, line)) =
        map (\<lambda>m. case grps m of [] \<Rightarrow> whole m | g # _ \<Rightarrow> g) (compiled line) \<and>
      ((\<forall>m \<in> set (compiled line).
          sublist (whole m) line \<and> (\<forall>g \<in> set (grps m). sublist g line)) \<longrightarrow>
       (\<forall>r \<in> set (line_results compiled c ch lines (i, line)). sublist (match r) line))"
  proof (intro allI conjI impI ballI)
    fix ch lines i line
    show m: "map match (line_results compiled c ch lines (i, line)) =
        map (\<lambda>m. case grps m of [] \<Rightarrow> whole m | g # _ \<Rightarrow> g) (compiled line)"
      by (rule line_results_match)
    fix r
    assume lit: "\<forall>m \<in> set (compiled line).
          sublist (whole m) line \<and> (\<forall>g \<in> set (grps m). sublist g line)"
      and r: "r \<in> set (line_results compiled c ch lines (i, line))"
    from r have "match r \<in> set (map match (line_results compiled c ch lines (i, line)))"
      by simp
    then obtain m where mm: "m \<in> set (compiled line)"
      and mr: "match r = (case grps m of [] \<Rightarrow> whole m | g # _ \<Rightarrow> g)"
      unfolding m by auto
    show "sublist (match r) line"
    proof (cases "grps m")
      case Nil
      with mr lit mm show ?thesis by simp
    next
      case (Cons g gs)
      then have "g \<in> set (grps m)" by simp
      with mr lit mm Cons show ?thesis by simp
    qed
  qed
  with comp chs res show ?thesis by blast
qed

theorem search_matched_text_witness:
  "sample_search cat_book ''the'' False 0 False =
     Inr [sample_result ''cat.xhtml'' ''The'' ''The cat sat.'' 1,
          sample_result ''cat.xhtml'' ''the'' ''the end of THE day'' 2,
          sample_result ''cat.xhtml'' ''THE'' ''the end of THE day'' 2] \<and>
   sample_search cat_book ''t(h)e'' False 0 True =
     Inr [sample_result ''cat.xhtml'' ''h'' ''The cat sat.'' 1,
          sample_result ''cat.xhtml'' ''h'' ''the end of THE day'' 2,
          sample_result ''cat.xhtml'' ''H'' ''the end of THE day'' 2] \<and>
   sample_search cat_book ''(c)(a)t'' True 0 True =
     Inr [sample_result ''cat.xhtml'' ''c'' ''The cat sat.'' 1] \<and>
   (\<exists>compiled. literal_compile (re_escape (str ''the'')) True = Inr compiled \<and>
      map match (line_results compiled 0 \<lparr>title = [], content = [], file_name = []\<rparr> []
                   (0, str ''The cat sat.'')) =
        map (\<lambda>m. case grps m of [] \<Rightarrow> whole m | g # _ \<Rightarrow> g) (compiled (str ''The cat sat.'')))"
proof -
  let ?e = "sample_env cat_book"
  let ?rs = "[sample_result ''cat.xhtml'' ''The'' ''The cat sat.'' 1,
          sample_result ''cat.xhtml'' ''the'' ''the end of THE day'' 2,
          sample_result ''cat.xhtml'' ''THE'' ''the end of THE day'' 2]"
  have 1: "sample_search cat_book ''the'' False 0 False = Inr ?rs"
    by code_simp
  have 2: "sample_search cat_book ''t(h)e'' False 0 True =
     Inr [sample_result ''cat.xhtml'' ''h'' ''The cat sat.'' 1,
          sample_result ''cat.xhtml'' ''h'' ''the end of THE day'' 2,
          sample_result ''cat.xhtml'' ''H'' ''the end of THE day'' 2]"
    by code_simp
  have 3: "sample_search cat_book ''(c)(a)t'' True 0 True =
     Inr [sample_result ''cat.xhtml'' ''c'' ''The cat sat.'' 1]"
    by code_simp
  have h: "fst (search ?e (str ''the'') False 0 False fresh_query) = Inr ?rs"
    using 1 by (simp only: sample_search_def)
  from search_matched_text [OF h]
  have "\<exists>compiled. literal_compile (re_escape (str ''the'')) True = Inr compiled \<and>
      map match (line_results compiled 0 \<lparr>title = [], content = [], file_name = []\<rparr> []
                   (0, str ''The cat sat.'')) =
        map (\<lambda>m. case grps m of [] \<Rightarrow> whole m | g # _ \<Rightarrow> g) (compiled (str ''The cat sat.''))"
    by (simp add: sample_env_def) blast
  with 1 2 3 show ?thesis by blast
qed

subsection \<open>Patterns that do not compile\<close>

text \<open>
  \<open>re.escape\<close> leaves no special character without its backslash: the escaped pattern is
  plain text in the pattern language, and the text it stands for is the pattern that
  was escaped.
\<close>

lemma literal_of_plain:
  assumes "\<not> re_special c"
  shows "literal_of (c # q) = map_option ((#) c) (literal_of q)"
proof (cases q)
  case Nil
  with assms show ?thesis by simp
next
  case (Cons d ds)
  from assms have "c \<noteq> 92" by (auto simp: re_special_def)
  with assms Cons show ?thesis by simp
qed

lemma literal_of_escaped_char:
  "re_special c \<Longrightarrow> literal_of (92 # c # q) = map_option ((#) c) (literal_of q)"
  by simp

lemma literal_of_escape: "literal_of (re_escape p) = Some p"
proof (induction p)
  case Nil
  then show ?case by (simp add: re_escape_def)
next
  case (Cons c p)
  have esc: "re_escape (c # p) = (if re_special c then [92, c] else [c]) @ re_escape p"
    by (simp add: re_escape_def)
  show ?case
  proof (cases "re_special c")
    case True
    then have "literal_of (re_escape (c # p)) = map_option ((#) c) (literal_of (re_escape p))"
      using literal_of_escaped_char [of c "re_escape p"] by (simp add: esc)
    then show ?thesis by (simp add: Cons.IH)
  next
    case False
    then have "literal_of (re_escape (c # p)) = map_option ((#) c) (literal_of (re_escape p))"
      using literal_of_plain [of c "re_escape p"] by (simp add: esc)
    then show ?thesis by (simp add: Cons.IH)
  qed
qed

text \<open>The sample engine accepts every pattern that is plain text, as the text it stands for.\<close>

lemma parse_pattern_literal:
  "literal_of p = Some l \<Longrightarrow>
   parse_pattern p opened lit groups = parse_pattern [] opened (lit @ l) groups"
proof (induction p arbitrary: l lit rule: literal_of.induct)
  case 1
  then show ?case by simp
next
  case (2 c)
  then have c: "\<not> re_special c" and l: "l = [c]" by (auto split: if_splits)
  from c have "c \<noteq> 92" "c \<noteq> 40" "c \<noteq> 41" by (auto simp: re_special_def)
  with c l show ?case by simp
next
  case (3 c d ds)
  show ?case
  proof (cases "c = 92")
    case True
    with "3.prems" obtain l' where d: "re_special d" and l': "literal_of ds = Some l'"
      and l: "l = d # l'"
      by (auto split: if_splits)
    have "parse_pattern ds opened (lit @ [d]) groups =
        parse_pattern [] opened ((lit @ [d]) @ l') groups"
      using True d l' by (rule "3.IH"(1))
    with True d l show ?thesis by simp
  next
    case False
    with "3.prems" obtain l' where c: "\<not> re_special c" and l': "literal_of (d # ds) = Some l'"
      and l: "l = c # l'"
      by (auto split: if_splits)
    from c have ne: "c \<noteq> 40" "c \<noteq> 41" by (auto simp: re_special_def)
    have "parse_pattern (d # ds) opened (lit @ [c]) groups =
        parse_pattern [] opened ((lit @ [c]) @ l') groups"
      using False c l' by (rule "3.IH"(2))
    with False c ne l show ?thesis by simp
  qed
qed

lemma literal_compile_plain:
  "literal_of p \<noteq> None \<Longrightarrow> \<exists>compiled. literal_compile p ic = Inr compiled"
proof -
  assume "literal_of p \<noteq> None"
  then obtain l where "literal_of p = Some l" by auto
  then have "parse_pattern p None [] [] = parse_pattern [] None ([] @ l) []"
    by (rule parse_pattern_literal)
  then show ?thesis by (simp add: literal_compile_def)
qed

lemma search_compile_error:
  "re_compile e (if rx then pattern else re_escape pattern) (\<not> cs) = Inl err \<Longrightarrow>
   search e pattern cs c rx q = (Inl err, q)"
  by (cases rx) (simp_all add: search_def Let_def)

lemma search_compiled:
  "re_compile e (if rx then pattern else re_escape pattern) (\<not> cs) = Inr compiled \<Longrightarrow>
   search e pattern cs c rx q =
     (case chapters e q of
        (Inl err, q1) \<Rightarrow> (Inl err, q1)
      | (Inr chs, q1) \<Rightarrow> (Inr (foldl (chapter_results compiled c) [] chs), q1))"
  by (cases rx) (simp_all add: search_def Let_def)

lemma search_literal_escapes:
  "search e pattern cs c False q = search e (re_escape pattern) cs c True q"
  by (simp add: search_def Let_def)

text \<open>
  C5. A literal search is the regex search for the escaped pattern, and in the escaped
  pattern every special character stands behind a backslash: as a pattern it is plain
  text, and the text is the pattern that was given. So, with a pattern engine that
  accepts every pattern that is plain text, a literal search raises no error of the
  pattern: if it raises, the error is the one that loading the chapters raised, and if
  the chapters load, it returns results. In regex mode, when the pattern does not
  compile, the search raises the error of the compilation and leaves the handle as it
  was, cached chapters included, so that any later search on the handle behaves as if
  the failed one had not been made. (The code raises the library's own \<open>re.error\<close>;
  the specification calls it \<open>InvalidPatternError\<close>.)
\<close>

theorem search_pattern_errors:
  "literal_of (re_escape pattern) = Some pattern \<and>
   search e pattern cs c False q = search e (re_escape pattern) cs c True q \<and>
   ((\<forall>p ic. literal_of p \<noteq> None \<longrightarrow> (\<exists>compiled. re_compile e p ic = Inr compiled)) \<longrightarrow>
      (\<forall>err. fst (search e pattern cs c False q) = Inl err \<longrightarrow> fst (chapters e q) = Inl err) \<and>
      (\<forall>chs. fst (chapters e q) = Inr chs \<longrightarrow>
         (\<exists>results. fst (search e pattern cs c False q) = Inr results))) \<and>
   (\<forall>err. re_compile e pattern (\<not> cs) = Inl err \<longrightarrow>
      search e pattern cs c True q = (Inl err, q) \<and>
      (\<forall>p' cs' c' rx'.
         search e p' cs' c' rx' (snd (search e pattern cs c True q)) = search e p' cs' c' rx' q))"
proof (intro conjI impI allI)
  show "literal_of (re_escape pattern) = Some pattern" by (rule literal_of_escape)
next
  show "search e pattern cs c False q = search e (re_escape pattern) cs c True q"
    by (rule search_literal_escapes)
next
  fix err
  assume acc: "\<forall>p ic. literal_of p \<noteq> None \<longrightarrow> (\<exists>compiled. re_compile e p ic = Inr compiled)"
    and fail: "fst (search e pattern cs c False q) = Inl err"
  have "literal_of (re_escape pattern) \<noteq> None" by (simp add: literal_of_escape)
  with acc obtain compiled where "re_compile e (re_escape pattern) (\<not> cs) = Inr compiled"
    by blast
  then have "search e pattern cs c False q =
     (case chapters e q of
        (Inl err, q1) \<Rightarrow> (Inl err, q1)
      | (Inr chs, q1) \<Rightarrow> (Inr (foldl (chapter_results compiled c) [] chs), q1))"
    using search_compiled [of e False pattern cs compiled c q] by simp
  with fail show "fst (chapters e q) = Inl err"
    by (cases "chapters e q") (auto split: sum.splits)
next
  fix chs
  assume acc: "\<forall>p ic. literal_of p \<noteq> None \<longrightarrow> (\<exists>compiled. re_compile e p ic = Inr compiled)"
    and chs: "fst (chapters e q) = Inr chs"
  have "literal_of (re_escape pattern) \<noteq> None" by (simp add: literal_of_escape)
  with acc obtain compiled where "re_compile e (re_escape pattern) (\<not> cs) = Inr compiled"
    by blast
  then have "search e pattern cs c False q =
     (case chapters e q of
        (Inl err, q1) \<Rightarrow> (Inl err, q1)
      | (Inr chs, q1) \<Rightarrow> (Inr (foldl (chapter_results compiled c) [] chs), q1))"
    using search_compiled [of e False pattern cs compiled c q] by simp
  with chs show "\<exists>results. fst (search e pattern cs c False q) = Inr results"
    by (cases "chapters e q") (auto split: sum.splits)
next
  fix err
  assume "re_compile e pattern (\<not> cs) = Inl err"
  then show s: "search e pattern cs c True q = (Inl err, q)"
    using search_compile_error [of e True pattern cs err c q] by simp
  fix p' cs' c' rx'
  from s show "search e p' cs' c' rx' (snd (search e pattern cs c True q)) =
      search e p' cs' c' rx' q"
    by simp
qed

theorem search_pattern_errors_witness:
  "(\<forall>p ic. \<exists>compiled. re_compile (sample_env cat_book) (re_escape p) ic = Inr compiled) \<and>
   re_escape (str ''sat.'') = str ''sat'' @ [92, 46] \<and>
   literal_of (str ''sat'' @ [92, 46]) = Some (str ''sat.'') \<and>
   literal_of (str ''sat.'') = None \<and>
   sample_search cat_book ''sat.'' True 0 False =
     Inr [sample_result ''cat.xhtml'' ''sat.'' ''The cat sat.'' 1] \<and>
   sample_search cat_book ''(sat'' True 0 False = Inr [] \<and>
   re_compile (sample_env cat_book) (str ''(sat'') True = Inl PatternError \<and>
   chapters_cache (loaded_query cat_book) =
     Some [\<lparr>title = str ''cat.xhtml'',
            content = str ''The cat sat.\<newline>the end of THE day'',
            file_name = str ''cat.xhtml''\<rparr>] \<and>
   search (sample_env cat_book) (str ''(sat'') False 0 True (loaded_query cat_book) =
     (Inl PatternError, loaded_query cat_book) \<and>
   fst (search (sample_env cat_book) (str ''sat'') False 0 True
          (snd (search (sample_env cat_book) (str ''(sat'') False 0 True
                  (loaded_query cat_book)))) =
     Inr [sample_result ''cat.xhtml'' ''sat'' ''The cat sat.'' 1]"
proof -
  let ?e = "sample_env cat_book"
  have plain: "\<forall>p ic. literal_of p \<noteq> None \<longrightarrow> (\<exists>compiled. re_compile ?e p ic = Inr compiled)"
    by (simp add: sample_env_def literal_compile_plain)
  have acc: "\<forall>p ic. \<exists>compiled. re_compile ?e (re_escape p) ic = Inr compiled"
    using plain by (simp add: literal_of_escape)
  have lit: "re_escape (str ''sat.'') = str ''sat'' @ [92, 46]"
    "literal_of (str ''sat'' @ [92, 46]) = Some (str ''sat.'')"
    "literal_of (str ''sat.'') = None"
    by code_simp+
  have "\<forall>err. fst (search ?e (str ''sat.'') True 0 False fresh_query) = Inl err \<longrightarrow>
      fst (chapters ?e fresh_query) = Inl err"
    using search_pattern_errors [where e = ?e and pattern = "str ''sat.''" and cs = True
        and c = 0 and q = fresh_query] plain by blast
  have 1: "sample_search cat_book ''sat.'' True 0 False =
     Inr [sample_result ''cat.xhtml'' ''sat.'' ''The cat sat.'' 1]"
    by code_simp
  have 2: "sample_search cat_book ''(sat'' True 0 False = Inr []"
    by code_simp
  have bad: "re_compile ?e (str ''(sat'') (\<not> False) = Inl PatternError"
    by (simp add: sample_env_def literal_compile_def str_def re_special_def)
  have 3: "chapters_cache (loaded_query cat_book) =
     Some [\<lparr>title = str ''cat.xhtml'',
            content = str ''The cat sat.\<newline>the end of THE day'',
            file_name = str ''cat.xhtml''\<rparr>]"
    by code_simp
  have 4: "fst (search ?e (str ''sat'') False 0 True (loaded_query cat_book)) =
     Inr [sample_result ''cat.xhtml'' ''sat'' ''The cat sat.'' 1]"
    by code_simp
  from search_pattern_errors [where e = ?e and pattern = "str ''(sat''" and cs = False
      and c = 0 and q = "loaded_query cat_book"] bad
  have 5: "search ?e (str ''(sat'') False 0 True (loaded_query cat_book) =
      (Inl PatternError, loaded_query cat_book)"
    by blast
  then have 6: "fst (search ?e (str ''sat'') False 0 True
          (snd (search ?e (str ''(sat'') False 0 True (loaded_query cat_book)))) =
     Inr [sample_result ''cat.xhtml'' ''sat'' ''The cat sat.'' 1]"
    using 4 by simp
  from acc lit 1 2 bad 3 5 6 show ?thesis by simp
qed

section \<open>The cache of the handle\<close>

lemma fresh_query_init: "EpubQuery_init (sample_env bk) (str ''book.epub'') = Inr fresh_query"
  by (simp add: EpubQuery_init_def EpubParser_init_def sample_env_def fresh_query_def)

lemma book_extractions: "extractions (snd (book e p)) = extractions p"
  by (simp add: book_def split: option.splits sum.splits)

lemma get_chapters_extractions:
  "extractions (snd (get_chapters e p)) = Suc (extractions p)"
proof (cases "book e p")
  case (Pair r p1)
  then have "extractions p1 = extractions p"
    using book_extractions [of e p] by simp
  with Pair show ?thesis
    by (cases r) (simp_all add: get_chapters_def count_call_def)
qed

lemma chapters_Inr_cache:
  "chapters e q = (Inr chs, q1) \<Longrightarrow> chapters_cache q1 = Some chs"
  by (cases "get_chapters e (parser q)")
     (auto simp: chapters_def split: option.splits sum.splits)

text \<open>
  C9. When an access to \<open>chapters\<close> has returned a list, a second access on the handle
  that the first one left returns the same list and leaves the handle, its count of
  extractions included, as it is, whatever the environment is then: it reads the cache
  and calls nothing. If the cache was empty before the first access, that access ran the
  extraction once and returned its result; if it was not, the first access changed
  nothing either.
\<close>

theorem chapters_cached:
  assumes "chapters e q = (Inr chs, q1)"
  shows "chapters e' q1 = (Inr chs, q1) \<and>
         extractions (parser (snd (chapters e' q1))) = extractions (parser q1) \<and>
         (chapters_cache q = None \<longrightarrow>
            fst (get_chapters e (parser q)) = Inr chs \<and>
            extractions (parser q1) = Suc (extractions (parser q))) \<and>
         (chapters_cache q \<noteq> None \<longrightarrow> q1 = q)"
proof -
  from assms have c: "chapters_cache q1 = Some chs" by (rule chapters_Inr_cache)
  then have again: "chapters e' q1 = (Inr chs, q1)" by (simp add: chapters_def)
  have first: "chapters_cache q = None \<longrightarrow>
      fst (get_chapters e (parser q)) = Inr chs \<and>
      extractions (parser q1) = Suc (extractions (parser q))"
  proof
    assume none: "chapters_cache q = None"
    obtain r p1 where g: "get_chapters e (parser q) = (r, p1)"
      by (cases "get_chapters e (parser q)")
    with assms none have r: "r = Inr chs" and q1: "q1 = q\<lparr>parser := p1, chapters_cache := Some chs\<rparr>"
      by (auto simp: chapters_def split: sum.splits)
    have "extractions p1 = Suc (extractions (parser q))"
      using get_chapters_extractions [of e "parser q"] g by simp
    with r q1 g show "fst (get_chapters e (parser q)) = Inr chs \<and>
      extractions (parser q1) = Suc (extractions (parser q))" by simp
  qed
  have cached: "chapters_cache q \<noteq> None \<longrightarrow> q1 = q"
    using assms by (auto simp: chapters_def)
  from again first cached show ?thesis by simp
qed

theorem chapters_cached_witness:
  "chapters (sample_env two_chapter_book) fresh_query =
     (Inr [\<lparr>title = str ''ch1.xhtml'', content = str ''Alpha line one\<newline>Alpha line two'',
            file_name = str ''ch1.xhtml''\<rparr>,
           \<lparr>title = str ''ch2.xhtml'', content = str ''Beta line one'',
            file_name = str ''ch2.xhtml''\<rparr>],
      loaded_query two_chapter_book) \<and>
   chapters (sample_env corrupt_book) (loaded_query two_chapter_book) =
     (Inr [\<lparr>title = str ''ch1.xhtml'', content = str ''Alpha line one\<newline>Alpha line two'',
            file_name = str ''ch1.xhtml''\<rparr>,
           \<lparr>title = str ''ch2.xhtml'', content = str ''Beta line one'',
            file_name = str ''ch2.xhtml''\<rparr>],
      loaded_query two_chapter_book) \<and>
   extractions (parser fresh_query) = 0 \<and>
   extractions (parser (loaded_query two_chapter_book)) = 1 \<and>
   extractions (parser (snd (chapters (sample_env two_chapter_book)
                               (loaded_query two_chapter_book)))) = 1"
proof -
  let ?e = "sample_env two_chapter_book"
  let ?chs = "[\<lparr>title = str ''ch1.xhtml'', content = str ''Alpha line one\<newline>Alpha line two'',
            file_name = str ''ch1.xhtml''\<rparr>,
           \<lparr>title = str ''ch2.xhtml'', content = str ''Beta line one'',
            file_name = str ''ch2.xhtml''\<rparr>]"
  have 1: "chapters ?e fresh_query = (Inr ?chs, loaded_query two_chapter_book)"
    by code_simp
  have 0: "extractions (parser fresh_query) = 0" "chapters_cache fresh_query = None"
    by (simp_all add: fresh_query_def)
  from chapters_cached [OF 1, of "sample_env corrupt_book"]
  have 2: "chapters (sample_env corrupt_book) (loaded_query two_chapter_book) =
      (Inr ?chs, loaded_query two_chapter_book)" by simp
  from chapters_cached [OF 1, of ?e] 0
  have 3: "extractions (parser (loaded_query two_chapter_book)) = 1"
    and 4: "extractions (parser (snd (chapters ?e (loaded_query two_chapter_book)))) = 1"
    by simp_all
  from 1 2 0 3 4 show ?thesis by simp
qed

section \<open>The full text\<close>

lemma blank_line_free:
  assumes "\<not> sublist [NL, NL] l" and "\<not> suffix [NL] l"
  shows "\<forall>k < length l. take (length [NL, NL]) (drop k (l @ [NL, NL])) \<noteq> [NL, NL]"
proof (intro allI impI notI)
  fix k
  assume k: "k < length l"
    and eq: "take (length [NL, NL]) (drop k (l @ [NL, NL])) = [NL, NL]"
  have d: "drop k (l @ [NL, NL]) = l ! k # drop (Suc k) (l @ [NL, NL])"
    using k by (simp add: Cons_nth_drop_Suc nth_append)
  from eq have lk: "l ! k = NL"
    and rest: "take (Suc 0) (drop (Suc k) (l @ [NL, NL])) = [NL]"
    unfolding d by simp_all
  show False
  proof (cases "Suc k < length l")
    case True
    then have d2: "drop (Suc k) (l @ [NL, NL]) = l ! Suc k # drop (Suc (Suc k)) (l @ [NL, NL])"
      by (simp add: Cons_nth_drop_Suc nth_append)
    have lk1: "l ! Suc k = NL" using rest [unfolded d2] by simp
    have "l = take k l @ l ! k # drop (Suc k) l" using k by (rule id_take_nth_drop)
    also have "drop (Suc k) l = l ! Suc k # drop (Suc (Suc k)) l"
      using True by (simp add: Cons_nth_drop_Suc)
    finally have "l = take k l @ [NL, NL] @ drop (Suc (Suc k)) l"
      using lk lk1 by simp
    then have "sublist [NL, NL] l" unfolding sublist_def by blast
    with assms(1) show False by simp
  next
    case False
    with k have "Suc k = length l" by simp
    then have "drop (Suc k) l = []" by simp
    moreover have "l = take k l @ l ! k # drop (Suc k) l" using k by (rule id_take_nth_drop)
    ultimately have "l = take k l @ [NL]" using lk by simp
    then have "suffix [NL] l" unfolding suffix_def by blast
    with assms(2) show False by simp
  qed
qed

lemma get_full_text_Inr:
  "fst (get_full_text e p) = Inr text \<Longrightarrow>
   \<exists>chs. fst (get_chapters e p) = Inr chs \<and> text = py_join [NL, NL] (map content chs)"
  by (cases "get_chapters e p") (auto simp: get_full_text_def split: sum.splits)

text \<open>
  C7 (as the code has it). When \<open>get_full_text\<close> returns, the text is the contents of the
  chapters that \<open>get_chapters\<close> returns, in their order, joined by two newlines. When
  there is at least one chapter and no content holds two newlines in a row anywhere, nor
  ends with a newline, splitting the text at the pairs of newlines gives the contents
  of the chapters back.
\<close>

theorem full_text_round_trip:
  assumes "fst (get_full_text e p) = Inr text"
  shows "\<exists>chs. fst (get_chapters e p) = Inr chs \<and>
           text = py_join [NL, NL] (map content chs) \<and>
           (chs \<noteq> [] \<and>
            (\<forall>ch \<in> set chs. \<not> sublist [NL, NL] (content ch) \<and> \<not> suffix [NL] (content ch)) \<longrightarrow>
            py_split [NL, NL] text = map content chs)"
proof -
  from get_full_text_Inr [OF assms] obtain chs where
    chs: "fst (get_chapters e p) = Inr chs" and
    tx: "text = py_join [NL, NL] (map content chs)" by blast
  have "chs \<noteq> [] \<and>
      (\<forall>ch \<in> set chs. \<not> sublist [NL, NL] (content ch) \<and> \<not> suffix [NL] (content ch)) \<longrightarrow>
      py_split [NL, NL] text = map content chs"
  proof
    assume a: "chs \<noteq> [] \<and>
      (\<forall>ch \<in> set chs. \<not> sublist [NL, NL] (content ch) \<and> \<not> suffix [NL] (content ch))"
    have "py_split [NL, NL] (py_join [NL, NL] (map content chs)) = map content chs"
    proof (rule split_join)
      show "[NL, NL] \<noteq> []" by simp
      show "map content chs \<noteq> []" using a by simp
      show "\<forall>l \<in> set (map content chs).
          \<forall>k < length l. take (length [NL, NL]) (drop k (l @ [NL, NL])) \<noteq> [NL, NL]"
      proof
        fix l assume "l \<in> set (map content chs)"
        then have "\<not> sublist [NL, NL] l" "\<not> suffix [NL] l" using a by auto
        then show "\<forall>k < length l. take (length [NL, NL]) (drop k (l @ [NL, NL])) \<noteq> [NL, NL]"
          by (rule blank_line_free)
      qed
    qed
    then show "py_split [NL, NL] text = map content chs" by (simp only: tx)
  qed
  with chs tx show ?thesis by blast
qed

theorem full_text_round_trip_witness:
  "fst (get_full_text (sample_env two_chapter_book) (parser fresh_query)) =
     Inr (str ''Alpha line one\<newline>Alpha line two\<newline>\<newline>Beta line one'') \<and>
   py_split [NL, NL] (str ''Alpha line one\<newline>Alpha line two\<newline>\<newline>Beta line one'') =
     [str ''Alpha line one\<newline>Alpha line two'', str ''Beta line one''] \<and>
   (\<exists>chs. fst (get_chapters (sample_env two_chapter_book) (parser fresh_query)) = Inr chs \<and>
      map content chs = [str ''Alpha line one\<newline>Alpha line two'', str ''Beta line one''] \<and>
      list_all (\<lambda>ch. \<not> sublist [NL, NL] (content ch) \<and> \<not> suffix [NL] (content ch)) chs)"
proof -
  let ?e = "sample_env two_chapter_book"
  let ?text = "str ''Alpha line one\<newline>Alpha line two\<newline>\<newline>Beta line one''"
  let ?cs = "[str ''Alpha line one\<newline>Alpha line two'', str ''Beta line one'']"
  have 1: "fst (get_full_text ?e (parser fresh_query)) = Inr ?text"
    by code_simp
  have 2: "map_sum id (map content) (fst (get_chapters ?e (parser fresh_query))) = Inr ?cs"
    by code_simp
  have 3: "list_all (\<lambda>c. \<not> sublist [NL, NL] c \<and> \<not> suffix [NL] c) ?cs"
    by code_simp
  from full_text_round_trip [OF 1] obtain chs where
    chs: "fst (get_chapters ?e (parser fresh_query)) = Inr chs" and
    rt: "chs \<noteq> [] \<and>
      (\<forall>ch \<in> set chs. \<not> sublist [NL, NL] (content ch) \<and> \<not> suffix [NL] (content ch)) \<longrightarrow>
      py_split [NL, NL] ?text = map content chs"
    by blast
  from chs 2 have cs: "map content chs = ?cs" by simp
  then have ne: "chs \<noteq> []" by auto
  have ok: "list_all (\<lambda>ch. \<not> sublist [NL, NL] (content ch) \<and> \<not> suffix [NL] (content ch)) chs"
    using 3 cs [symmetric] by (simp add: list_all_iff)
  with rt ne cs have 4: "py_split [NL, NL] ?text = ?cs" by (simp add: list_all_iff)
  from chs cs ok have "\<exists>chs. fst (get_chapters ?e (parser fresh_query)) = Inr chs \<and>
      map content chs = ?cs \<and>
      list_all (\<lambda>ch. \<not> sublist [NL, NL] (content ch) \<and> \<not> suffix [NL] (content ch)) chs"
    by (intro exI [of _ chs] conjI)
  with 1 4 show ?thesis by (intro conjI)
qed

text \<open>
  C7 as the specification states it fails: the content of the only chapter of
  \<open>blank_line_book\<close> neither starts nor ends with a newline, and the split of the full
  text gives two pieces instead of the content.
\<close>

theorem full_text_round_trip_counterexample:
  "map_sum id (map content)
     (fst (get_chapters (sample_env blank_line_book) (parser fresh_query))) =
     Inr [str ''First part\<newline>\<newline>Second part''] \<and>
   fst (get_full_text (sample_env blank_line_book) (parser fresh_query)) =
     Inr (str ''First part\<newline>\<newline>Second part'') \<and>
   \<not> prefix [NL] (str ''First part\<newline>\<newline>Second part'') \<and>
   \<not> suffix [NL] (str ''First part\<newline>\<newline>Second part'') \<and>
   py_split [NL, NL] (str ''First part\<newline>\<newline>Second part'') =
     [str ''First part'', str ''Second part'']"
  by code_simp

section \<open>The word count\<close>

subsection \<open>The tokens of \<open>split()\<close>\<close>

lemma split_ws_count:
  "is_space prev \<longleftrightarrow> cur = [] \<Longrightarrow>
   length (split_ws cur s) =
     (if cur = [] then 0 else 1) +
     length (filter (\<lambda>(p, c). is_space p \<and> \<not> is_space c) (zip (prev # s) s))"
proof (induction s arbitrary: cur prev)
  case Nil
  then show ?case by simp
next
  case (Cons c s)
  show ?case
  proof (cases "is_space c")
    case True
    then show ?thesis using Cons.IH [of c "[]"] Cons.prems by simp
  next
    case False
    then show ?thesis using Cons.IH [of c "cur @ [c]"] Cons.prems by simp
  qed
qed

lemma py_split_ws_count:
  "length (py_split_ws s) =
     length (filter (\<lambda>(p, c). is_space p \<and> \<not> is_space c) (zip (32 # s) s))"
  using split_ws_count [of 32 "[]" s] by (simp add: py_split_ws_def is_space_def)

lemma split_ws_concat: "concat (split_ws cur s) = cur @ filter (\<lambda>c. \<not> is_space c) s"
  by (induction s arbitrary: cur) simp_all

lemma split_ws_token:
  "t \<in> set (split_ws cur s) \<Longrightarrow> \<forall>c \<in> set cur. \<not> is_space c \<Longrightarrow>
   t \<noteq> [] \<and> (\<forall>c \<in> set t. \<not> is_space c)"
proof (induction s arbitrary: cur)
  case Nil
  then show ?case by (simp split: if_splits)
next
  case (Cons c s)
  show ?case
  proof (cases "is_space c")
    case True
    with Cons.prems(1) have "(cur \<noteq> [] \<and> t = cur) \<or> t \<in> set (split_ws [] s)"
      by (simp split: if_splits)
    then show ?thesis
    proof
      assume "cur \<noteq> [] \<and> t = cur"
      with Cons.prems(2) show ?thesis by simp
    next
      assume "t \<in> set (split_ws [] s)"
      then show ?thesis by (rule Cons.IH) simp
    qed
  next
    case False
    with Cons.prems(1) have "t \<in> set (split_ws (cur @ [c]) s)" by simp
    then show ?thesis
    proof (rule Cons.IH)
      show "\<forall>x \<in> set (cur @ [c]). \<not> is_space x" using Cons.prems(2) False by simp
    qed
  qed
qed

lemma py_split_ws_tokens:
  "(\<forall>t \<in> set (py_split_ws s). t \<noteq> [] \<and> (\<forall>c \<in> set t. \<not> is_space c)) \<and>
   concat (py_split_ws s) = filter (\<lambda>c. \<not> is_space c) s"
proof -
  have "\<forall>t \<in> set (py_split_ws s). t \<noteq> [] \<and> (\<forall>c \<in> set t. \<not> is_space c)"
  proof
    fix t assume "t \<in> set (py_split_ws s)"
    then have "t \<in> set (split_ws [] s)" by (simp only: py_split_ws_def)
    then show "t \<noteq> [] \<and> (\<forall>c \<in> set t. \<not> is_space c)"
      by (rule split_ws_token) simp
  qed
  moreover have "concat (py_split_ws s) = filter (\<lambda>c. \<not> is_space c) s"
    by (simp add: py_split_ws_def split_ws_concat)
  ultimately show ?thesis by (rule conjI)
qed

subsection \<open>The report\<close>

lemma update_fresh: "k \<notin> fst ` set al \<Longrightarrow> AList.update k v al = al @ [(k, v)]"
  by (induction al) auto

lemma word_count_of_snoc: "word_count_of (chs @ [ch]) = count_step (word_count_of chs) ch"
  by (simp add: word_count_of_def)

lemma word_count_of_report:
  "total (word_count_of chs) =
     sum_list (map (\<lambda>ch. int (length (py_split_ws (content ch)))) chs) \<and>
   map fst (by_chapter (word_count_of chs)) = rev (remdups (rev (map title chs))) \<and>
   map_of (by_chapter (word_count_of chs)) =
     map_of (rev (map (\<lambda>ch. (title ch, int (length (py_split_ws (content ch))))) chs))"
proof (induction chs rule: rev_induct)
  case Nil
  then show ?case by (simp add: word_count_of_def)
next
  case (snoc ch chs)
  let ?r = "word_count_of chs"
  let ?w = "int (length (py_split_ws (content ch)))"
  have t: "total (count_step ?r ch) = total ?r + ?w"
    and b: "by_chapter (count_step ?r ch) = AList.update (title ch) ?w (by_chapter ?r)"
    by (simp_all add: count_step_def Let_def)
  have keys: "set (map fst (by_chapter ?r)) = set (map title chs)"
    using snoc.IH by simp
  have 1: "total (word_count_of (chs @ [ch])) =
     sum_list (map (\<lambda>ch. int (length (py_split_ws (content ch)))) (chs @ [ch]))"
    using snoc.IH by (simp add: word_count_of_snoc t)
  have 2: "map fst (by_chapter (word_count_of (chs @ [ch]))) =
     rev (remdups (rev (map title (chs @ [ch]))))"
    using snoc.IH keys by (simp add: word_count_of_snoc b update_keys)
  have 3: "map_of (by_chapter (word_count_of (chs @ [ch]))) =
     map_of (rev (map (\<lambda>ch. (title ch, int (length (py_split_ws (content ch))))) (chs @ [ch])))"
    using snoc.IH by (simp add: word_count_of_snoc b update_conv')
  from 1 2 3 show ?case by simp
qed

lemma word_count_of_distinct:
  "distinct (map title chs) \<Longrightarrow>
   by_chapter (word_count_of chs) =
     map (\<lambda>ch. (title ch, int (length (py_split_ws (content ch))))) chs"
proof (induction chs rule: rev_induct)
  case Nil
  then show ?case by (simp add: word_count_of_def)
next
  case (snoc ch chs)
  then have IH: "by_chapter (word_count_of chs) =
     map (\<lambda>ch. (title ch, int (length (py_split_ws (content ch))))) chs"
    and fresh: "title ch \<notin> set (map title chs)" by simp_all
  from fresh have "title ch \<notin> fst ` set (by_chapter (word_count_of chs))"
    unfolding IH by (simp add: image_image)
  then show ?case
    by (simp add: word_count_of_snoc count_step_def Let_def update_fresh IH)
qed

lemma word_count_Inr:
  "fst (word_count e q) = Inr report \<Longrightarrow>
   \<exists>chs. fst (chapters e q) = Inr chs \<and> report = word_count_of chs"
  by (cases "chapters e q") (auto simp: word_count_def split: sum.splits)

text \<open>
  C8 (as the code has it). When \<open>word_count\<close> returns, \<open>total\<close> is the sum, over all the
  chapters, of the number of tokens of the content of the chapter. The keys of
  \<open>by_chapter\<close> are the titles of the chapters, each once, in the order of their first
  occurrence, and the value under a title is the number of tokens of the last chapter
  that bears this title. When no two chapters have the same title, \<open>by_chapter\<close> has one
  entry for each chapter, in the order of the chapters, and \<open>total\<close> is the sum of its
  values. The tokens of a content are its maximal runs of characters that are not white
  space: there are as many as there are characters that are not white space and stand
  at the start or after white space, none is empty, none holds white space, and
  together they are the content without its white space.
\<close>

theorem word_count_report:
  assumes "fst (word_count e q) = Inr report"
  shows "\<exists>chs.
     fst (chapters e q) = Inr chs \<and>
     total report = sum_list (map (\<lambda>ch. int (length (py_split_ws (content ch)))) chs) \<and>
     map fst (by_chapter report) = rev (remdups (rev (map title chs))) \<and>
     map_of (by_chapter report) =
       map_of (rev (map (\<lambda>ch. (title ch, int (length (py_split_ws (content ch))))) chs)) \<and>
     (distinct (map title chs) \<longrightarrow>
        by_chapter report =
          map (\<lambda>ch. (title ch, int (length (py_split_ws (content ch))))) chs \<and>
        total report = sum_list (map snd (by_chapter report))) \<and>
     (\<forall>s. length (py_split_ws s) =
            length (filter (\<lambda>(p, c). is_space p \<and> \<not> is_space c) (zip (32 # s) s)) \<and>
          (\<forall>t \<in> set (py_split_ws s). t \<noteq> [] \<and> (\<forall>c \<in> set t. \<not> is_space c)) \<and>
          concat (py_split_ws s) = filter (\<lambda>c. \<not> is_space c) s)"
proof -
  from word_count_Inr [OF assms] obtain chs where
    chs: "fst (chapters e q) = Inr chs" and r: "report = word_count_of chs" by blast
  let ?kv = "\<lambda>ch. (title ch, int (length (py_split_ws (content ch))))"
  have 1: "total report = sum_list (map (\<lambda>ch. int (length (py_split_ws (content ch)))) chs)"
    and 2: "map fst (by_chapter report) = rev (remdups (rev (map title chs)))"
    and 3: "map_of (by_chapter report) = map_of (rev (map ?kv chs))"
    unfolding r using word_count_of_report [of chs] by simp_all
  have 4: "distinct (map title chs) \<longrightarrow>
      by_chapter report = map ?kv chs \<and> total report = sum_list (map snd (by_chapter report))"
  proof
    assume "distinct (map title chs)"
    then have b: "by_chapter report = map ?kv chs"
      unfolding r by (rule word_count_of_distinct)
    then have "sum_list (map snd (by_chapter report)) = total report"
      using 1 by (simp add: comp_def)
    with b show "by_chapter report = map ?kv chs \<and>
        total report = sum_list (map snd (by_chapter report))" by simp
  qed
  have 5: "\<forall>s. length (py_split_ws s) =
            length (filter (\<lambda>(p, c). is_space p \<and> \<not> is_space c) (zip (32 # s) s)) \<and>
          (\<forall>t \<in> set (py_split_ws s). t \<noteq> [] \<and> (\<forall>c \<in> set t. \<not> is_space c)) \<and>
          concat (py_split_ws s) = filter (\<lambda>c. \<not> is_space c) s"
    using py_split_ws_count py_split_ws_tokens by blast
  from chs 1 2 3 4 5 show ?thesis by (intro exI [of _ chs] conjI)
qed

theorem word_count_report_witness:
  "fst (word_count (sample_env three_word_book) fresh_query) =
     Inr \<lparr>total = 3, by_chapter = [(str ''ch1.xhtml'', 3)]\<rparr> \<and>
   fst (word_count (sample_env two_chapter_book) fresh_query) =
     Inr \<lparr>total = 9, by_chapter = [(str ''ch1.xhtml'', 6), (str ''ch2.xhtml'', 3)]\<rparr> \<and>
   py_split_ws (str ''  one two\<newline> three '') = [str ''one'', str ''two'', str ''three''] \<and>
   (\<exists>chs. fst (chapters (sample_env three_word_book) fresh_query) = Inr chs \<and>
          3 = sum_list (map (\<lambda>ch. int (length (py_split_ws (content ch)))) chs) \<and>
          map title chs = [str ''ch1.xhtml''])"
proof -
  let ?e = "sample_env three_word_book"
  let ?r = "\<lparr>total = 3, by_chapter = [(str ''ch1.xhtml'', 3)]\<rparr>"
  have 1: "fst (word_count ?e fresh_query) = Inr ?r"
    by code_simp
  have 2: "fst (word_count (sample_env two_chapter_book) fresh_query) =
     Inr \<lparr>total = 9, by_chapter = [(str ''ch1.xhtml'', 6), (str ''ch2.xhtml'', 3)]\<rparr>"
    by code_simp
  have 3: "py_split_ws (str ''  one two\<newline> three '') = [str ''one'', str ''two'', str ''three'']"
    by code_simp
  have 4: "map_sum id (map title) (fst (chapters ?e fresh_query)) = Inr [str ''ch1.xhtml'']"
    by code_simp
  from word_count_report [OF 1] obtain chs where
    chs: "fst (chapters ?e fresh_query) = Inr chs" and
    t: "total ?r = sum_list (map (\<lambda>ch. int (length (py_split_ws (content ch)))) chs)"
    by blast
  from chs 4 have ti: "map title chs = [str ''ch1.xhtml'']" by simp
  from t have t': "3 = sum_list (map (\<lambda>ch. int (length (py_split_ws (content ch)))) chs)"
    by simp
  from chs t' ti have "\<exists>chs. fst (chapters ?e fresh_query) = Inr chs \<and>
          3 = sum_list (map (\<lambda>ch. int (length (py_split_ws (content ch)))) chs) \<and>
          map title chs = [str ''ch1.xhtml'']"
    by (intro exI [of _ chs] conjI)
  with 1 2 3 show ?thesis by (intro conjI)
qed

text \<open>
  C8 as the specification states it fails: the two pages of \<open>same_title_book\<close> have the
  title \<open>"Notes"\<close> and \<open>2\<close> and \<open>3\<close> tokens; the report has the single entry
  \<open>"Notes"\<close> with \<open>3\<close>, and a total of \<open>5\<close>.
\<close>

theorem word_count_report_counterexample:
  "map_sum id (map (\<lambda>ch. (title ch, content ch, int (length (py_split_ws (content ch))))))
     (fst (chapters (sample_env same_title_book) fresh_query)) =
     Inr [(str ''Notes'', str ''Notes\<newline>one'', 2),
          (str ''Notes'', str ''Notes\<newline>two three'', 3)] \<and>
   fst (word_count (sample_env same_title_book) fresh_query) =
     Inr \<lparr>total = 5, by_chapter = [(str ''Notes'', 3)]\<rparr>"
  by code_simp

end
